theory Spec2Isabelle
  imports Complex_Main "HOL-Library.Sublist"
begin

section \<open>Binary adder notebook: data model\<close>

text \<open>
  The notebook works on numpy arrays of unsigned integers. An array is modelled by its
  numpy dtype and the list of its elements, the elements as natural numbers; storing a
  number in an array of a given dtype keeps it modulo \<open>2 ^ width\<close>. The configuration
  names a dtype by a string (\<open>"uint8"\<close>, \<open>"uint16"\<close>, \<open>"uint32"\<close>), which the code
  compares with \<open>==\<close>; a string outside these three leaves the local variables of the
  \<open>if\<close> chains unbound, which Python reports as an error.
\<close>

datatype py_error =
  ValueError | UnboundLocalError | AttributeError | ZeroDivisionError | IndexError | EOFError
  | OverflowError

datatype np_dtype = np_uint8 | np_uint16 | np_uint32

fun itemsize :: "np_dtype \<Rightarrow> nat" where
  "itemsize np_uint8 = 1"
| "itemsize np_uint16 = 2"
| "itemsize np_uint32 = 4"

definition astype :: "np_dtype \<Rightarrow> nat \<Rightarrow> nat" where
  "astype dt v = v mod 2 ^ (8 * itemsize dt)"

definition max_uint32 :: nat where "max_uint32 = 2 ^ 32 - 1"
definition max_uint16 :: nat where "max_uint16 = 2 ^ 16 - 1"
definition max_uint8 :: nat where "max_uint8 = 2 ^ 8 - 1"

subsection \<open>Bit codec\<close>

text \<open>
  \<open>np.unpackbits\<close> writes every byte as eight bits, most significant first;
  \<open>np.packbits\<close> reads groups of eight entries, most significant first, counts every
  nonzero entry as a one and pads the last group with zeros.
\<close>

definition unpackbits_byte :: "nat \<Rightarrow> nat list" where
  "unpackbits_byte b = map (\<lambda>i. (b div 2 ^ (7 - i)) mod 2) [0..<8]"

definition unpackbits :: "nat list \<Rightarrow> nat list" where
  "unpackbits bs = concat (map unpackbits_byte bs)"

definition packbits_byte :: "nat list \<Rightarrow> nat" where
  "packbits_byte g =
     foldl (\<lambda>acc b. 2 * acc + (if b \<noteq> 0 then 1 else 0)) 0 (g @ replicate (8 - length g) 0)"

function packbits :: "nat list \<Rightarrow> nat list" where
  "packbits xs = (if xs = [] then [] else packbits_byte (take 8 xs) # packbits (drop 8 xs))"
  by pat_completeness auto
termination
  by (relation "measure length") auto

declare packbits.simps [simp del]

text \<open>The bytes of one element in big-endian order (\<open>x.dtype.newbyteorder("B")\<close>
  followed by \<open>view(np.uint8)\<close>).\<close>

definition bytes_be :: "nat \<Rightarrow> nat \<Rightarrow> nat list" where
  "bytes_be n v = map (\<lambda>k. (v div 256 ^ (n - 1 - k)) mod 256) [0..<n]"

definition arr2inbits :: "np_dtype \<Rightarrow> nat list \<Rightarrow> nat list" where
  "arr2inbits dt x =
     (let x_little_end_uint8 = concat (map (bytes_be (itemsize dt)) x);
          x_bits = unpackbits x_little_end_uint8;
          x_bits_flipped = rev x_bits
      in x_bits_flipped)"

text \<open>\<open>np.reshape(a, [len(a) / n, n])\<close>: rows of \<open>n\<close> entries; it raises when the
  entries do not fill the rows.\<close>

function rows_of :: "nat \<Rightarrow> 'a list \<Rightarrow> 'a list list" where
  "rows_of n xs = (if n = 0 \<or> xs = [] then [] else take n xs # rows_of n (drop n xs))"
  by pat_completeness auto
termination
  by (relation "measure (\<lambda>(n, xs). length xs)") auto

declare rows_of.simps [simp del]

definition reshape_rows :: "'a list \<Rightarrow> nat \<Rightarrow> nat \<Rightarrow> py_error + 'a list list" where
  "reshape_rows xs r n = (if r * n = length xs then Inr (if n = 0 then replicate r [] else rows_of n xs)
                          else Inl ValueError)"

definition weighted_rows :: "nat list \<Rightarrow> nat list list \<Rightarrow> nat list" where
  "weighted_rows multiplier x_grouped_bytes =
     map (\<lambda>row. sum_list (map2 (*) multiplier row)) x_grouped_bytes"

definition bits2arr :: "nat list \<Rightarrow> string \<Rightarrow> py_error + nat list" where
  "bits2arr x dt =
     (let x_bits_flipped = rev x;
          x_int = packbits x_bits_flipped
      in if dt = ''uint8'' then Inr x_int
         else if dt = ''uint16'' then
           (case reshape_rows x_int (length x_int div 2) 2 of
              Inl e \<Rightarrow> Inl e
            | Inr x_grouped_bytes \<Rightarrow> Inr (weighted_rows [2 ^ 8, 1] x_grouped_bytes))
         else if dt = ''uint32'' then
           (case reshape_rows x_int (length x_int div 4) 4 of
              Inl e \<Rightarrow> Inl e
            | Inr x_grouped_bytes \<Rightarrow>
                Inr (weighted_rows [2 ^ 24, 2 ^ 16, 2 ^ 8, 1] x_grouped_bytes))
         else Inl UnboundLocalError)"

subsection \<open>Configuration\<close>

text \<open>The notebook's global settings (first code cell).\<close>

definition use_tf_rnn_api :: bool where "use_tf_rnn_api = False"
definition dtype :: string where "dtype = ''uint32''"
definition hidden_neurons :: nat where "hidden_neurons = 16"
definition samples :: nat where "samples = 256"
definition train_validation_batches_split :: rat where "train_validation_batches_split = 1 / 2"
definition batch_size :: nat where "batch_size = 16"

definition valid_dtypes :: "string set" where
  "valid_dtypes = {''uint8'', ''uint16'', ''uint32''}"

text \<open>The \<open>if\<close> chain of \<open>SampleData.__init__\<close> that sets \<open>self.bitwidth\<close>, and the one
  of \<open>RNNCalc.__init__\<close> that sets \<open>self.max_val\<close> and \<open>self.np_dtype\<close>; outside the
  three names nothing is assigned.\<close>

definition bitwidth_of :: "string \<Rightarrow> nat option" where
  "bitwidth_of dt =
     (if dt = ''uint8'' then Some 8
      else if dt = ''uint16'' then Some 16
      else if dt = ''uint32'' then Some 32
      else None)"

definition np_dtype_of :: "string \<Rightarrow> np_dtype option" where
  "np_dtype_of dt =
     (if dt = ''uint8'' then Some np_uint8
      else if dt = ''uint16'' then Some np_uint16
      else if dt = ''uint32'' then Some np_uint32
      else None)"

definition max_val_of :: "string \<Rightarrow> nat option" where
  "max_val_of dt =
     (if dt = ''uint8'' then Some (2 ^ 8 - 1)
      else if dt = ''uint16'' then Some (2 ^ 16 - 1)
      else if dt = ''uint32'' then Some (2 ^ 32 - 1)
      else None)"

subsection \<open>Sample generator\<close>

text \<open>
  \<open>np.random.choice(a, k, replace=True)\<close> with an integer \<open>a\<close> draws \<open>k\<close> values
  from \<open>np.arange(a)\<close>. The draw is the only nondeterminism of the generator; it is
  modelled by the set of arrays the call can return.
\<close>

definition random_choice :: "nat \<Rightarrow> nat \<Rightarrow> nat list \<Rightarrow> bool" where
  "random_choice a k xs \<longleftrightarrow> length xs = k \<and> list_all (\<lambda>v. v < a) xs"

text \<open>\<open>SampleData.gen_x\<close>: the results the method can return for a sample count and a
  dtype name. A name outside the three leaves \<open>x0_uint\<close> unbound at the \<open>return\<close>.\<close>

inductive gen_x :: "nat \<Rightarrow> string \<Rightarrow> py_error + (nat list \<times> nat list) \<Rightarrow> bool" where
  gen_uint8:
    "random_choice max_uint8 n c0 \<Longrightarrow> random_choice max_uint8 n c1 \<Longrightarrow>
     gen_x n ''uint8'' (Inr (map (astype np_uint8) c0, map (astype np_uint8) c1))"
| gen_uint16:
    "random_choice max_uint16 n c0 \<Longrightarrow> random_choice max_uint16 n c1 \<Longrightarrow>
     gen_x n ''uint16'' (Inr (map (astype np_uint16) c0, map (astype np_uint16) c1))"
| gen_uint32:
    "random_choice max_uint32 n c0 \<Longrightarrow> random_choice max_uint32 n c1 \<Longrightarrow>
     gen_x n ''uint32'' (Inr (map (astype np_uint32) c0, map (astype np_uint32) c1))"
| gen_unbound:
    "dt \<notin> valid_dtypes \<Longrightarrow> gen_x n dt (Inl UnboundLocalError)"

text \<open>\<open>SampleData.calc_y\<close>: \<open>np.hstack\<close> of the two columns (it raises when their
  lengths differ), then the row sums accumulated in the dtype, which wrap.\<close>

definition calc_y :: "nat list \<Rightarrow> nat list \<Rightarrow> string \<Rightarrow> py_error + nat list" where
  "calc_y x0_uint x1_uint dt =
     (if length x0_uint \<noteq> length x1_uint then Inl ValueError
      else let temp_x = map2 (\<lambda>a b. [a, b]) x0_uint x1_uint
           in if dt = ''uint8'' then Inr (map (\<lambda>row. astype np_uint8 (sum_list row)) temp_x)
              else if dt = ''uint16'' then Inr (map (\<lambda>row. astype np_uint16 (sum_list row)) temp_x)
              else if dt = ''uint32'' then Inr (map (\<lambda>row. astype np_uint32 (sum_list row)) temp_x)
              else Inl UnboundLocalError)"

text \<open>Python list slices \<open>xs[:k]\<close> and \<open>xs[k:]\<close>: a negative bound counts from the end,
  and bounds beyond the list are clipped.\<close>

definition py_slice_to :: "'a list \<Rightarrow> int \<Rightarrow> 'a list" where
  "py_slice_to xs k = take (nat (if k < 0 then int (length xs) + k else k)) xs"

definition py_slice_from :: "'a list \<Rightarrow> int \<Rightarrow> 'a list" where
  "py_slice_from xs k = drop (nat (if k < 0 then int (length xs) + k else k)) xs"

text \<open>
  The split fraction is a Python float, a binary64 number; it is modelled by the rational
  it denotes. An arithmetic result is the exact result rounded to the nearest binary64
  number, ties to the even significand: \<open>float64\<close> rounds a rational to a multiple of
  \<open>2 ^ (e - 52)\<close>, where \<open>e\<close> is the exponent of the rational (at least \<open>- 1022\<close>, below
  which the numbers are subnormal); a result of magnitude \<open>2 ^ 1024\<close> or more is an infinity,
  which \<open>int\<close> refuses with \<open>OverflowError\<close>, as the conversion of too large an integer
  to a float does.
\<close>

fun bit_length :: "nat \<Rightarrow> nat" where
  "bit_length n = (if n = 0 then 0 else Suc (bit_length (n div 2)))"

declare bit_length.simps [simp del]

definition pow2 :: "int \<Rightarrow> rat" where
  "pow2 k = (if 0 \<le> k then 2 ^ nat k else 1 / 2 ^ nat (- k))"

text \<open>The exponent of a nonzero rational: the \<open>e\<close> with \<open>2 ^ e \<le> |x| < 2 ^ (e + 1)\<close>.\<close>

definition float_exponent :: "rat \<Rightarrow> int" where
  "float_exponent x =
     (if 1 \<le> \<bar>x\<bar> then int (bit_length (nat \<lfloor>\<bar>x\<bar>\<rfloor>)) - 1
      else - int (bit_length (nat (\<lceil>1 / \<bar>x\<bar>\<rceil> - 1))))"

definition round_half_even :: "rat \<Rightarrow> int" where
  "round_half_even m =
     (let f = \<lfloor>m\<rfloor>; d = m - of_int f
      in if d < 1 / 2 then f else if 1 / 2 < d then f + 1 else if even f then f else f + 1)"

definition float64 :: "rat \<Rightarrow> py_error + rat" where
  "float64 x =
     (if x = 0 then Inr 0
      else let e = max (float_exponent x) (- 1022);
               q = pow2 (e - 52);
               r = of_int (round_half_even (x / q)) * q
           in if pow2 1024 \<le> \<bar>r\<bar> then Inl OverflowError else Inr r)"

text \<open>\<open>int(f)\<close> of a float truncates towards zero.\<close>

definition int_of_float :: "rat \<Rightarrow> int" where
  "int_of_float f = (if 0 \<le> f then \<lfloor>f\<rfloor> else \<lceil>f\<rceil>)"

text \<open>\<open>int(samples / batch_size)\<close>: the true division of two integers is their exact
  quotient rounded to binary64 (the batch size is not zero where this is reached).
  \<open>int(train_validation_batches_split * self.batch_count)\<close>: the batch count is
  converted to a float, the product is taken in binary64, and the result is truncated.\<close>

definition batch_count_of :: "nat \<Rightarrow> nat \<Rightarrow> py_error + nat" where
  "batch_count_of n bsize =
     (case float64 (of_nat n / of_nat bsize) of Inl e \<Rightarrow> Inl e
      | Inr f \<Rightarrow> Inr (nat (int_of_float f)))"

definition train_batches_of :: "rat \<Rightarrow> nat \<Rightarrow> py_error + int" where
  "train_batches_of split bc =
     (case float64 (of_nat bc) of Inl e \<Rightarrow> Inl e | Inr fb \<Rightarrow>
      case float64 (split * fb) of Inl e \<Rightarrow> Inl e | Inr p \<Rightarrow> Inr (int_of_float p))"

text \<open>\<open>np.split(ary, sections, axis=0)\<close> with an integer: equal parts along the first
  axis.\<close>

definition np_split :: "'a list \<Rightarrow> nat \<Rightarrow> py_error + 'a list list" where
  "np_split ary sections =
     (if sections = 0 then Inl ZeroDivisionError
      else if length ary mod sections \<noteq> 0 then Inl ValueError
      else if ary = [] then Inr (replicate sections [])
      else Inr (rows_of (length ary div sections) ary))"

text \<open>\<open>SampleData.print_batch_dims\<close> reads \<open>var[0].shape\<close>, which raises on an empty
  list of batches. What it prints is not modelled.\<close>

definition print_batch_dims :: "'a list \<Rightarrow> py_error + unit" where
  "print_batch_dims var = (if var = [] then Inl IndexError else Inr ())"

record SampleData =
  sd_dtype :: string
  bitwidth :: nat
  x0_uint :: "nat list"
  x1_uint :: "nat list"
  y_uint :: "nat list"
  x0_bits :: "nat list"
  x1_bits :: "nat list"
  y_bits :: "nat list"
  x0_samples_bits :: "nat list list"
  x1_samples_bits :: "nat list list"
  x_samples_bits_dims :: "nat list list list"
  y_samples_bits_dims :: "nat list list list"
  batch_count :: nat
  x_all :: "nat list list list list"
  y_all :: "nat list list list list"
  x_train :: "nat list list list list"
  y_train :: "nat list list list list"
  x_validation :: "nat list list list list"
  y_validation :: "nat list list list list"

text \<open>The second half of \<open>SampleData.__init__\<close>: batching and the split, from the bit
  tensors of all samples.\<close>

definition split_batches ::
  "SampleData \<Rightarrow> nat \<Rightarrow> nat \<Rightarrow> rat \<Rightarrow> py_error + SampleData" where
  "split_batches sd n bsize split =
     (case batch_count_of n bsize of Inl e \<Rightarrow> Inl e | Inr bc \<Rightarrow>
      case np_split (x_samples_bits_dims sd) bc of Inl e \<Rightarrow> Inl e | Inr xa \<Rightarrow>
      case np_split (y_samples_bits_dims sd) bc of Inl e \<Rightarrow> Inl e | Inr ya \<Rightarrow>
      case train_batches_of split bc of Inl e \<Rightarrow> Inl e | Inr train_batches \<Rightarrow>
      let sd' = sd\<lparr>batch_count := bc, x_all := xa, y_all := ya,
                   x_train := py_slice_to xa (train_batches - 1),
                   y_train := py_slice_to ya (train_batches - 1),
                   x_validation := py_slice_from xa train_batches,
                   y_validation := py_slice_from ya train_batches\<rparr>
      in case print_batch_dims (x_train sd') of Inl e \<Rightarrow> Inl e | Inr _ \<Rightarrow>
         case print_batch_dims (y_train sd') of Inl e \<Rightarrow> Inl e | Inr _ \<Rightarrow>
         case print_batch_dims (x_validation sd') of Inl e \<Rightarrow> Inl e | Inr _ \<Rightarrow>
         case print_batch_dims (y_validation sd') of Inl e \<Rightarrow> Inl e | Inr _ \<Rightarrow> Inr sd')"

text \<open>\<open>SampleData.__init__\<close>, given what \<open>gen_x\<close> returned. The checks come first, so a
  bad configuration fails whatever was drawn.\<close>

definition SampleData_init ::
  "nat \<Rightarrow> string \<Rightarrow> nat \<Rightarrow> rat \<Rightarrow> py_error + (nat list \<times> nat list) \<Rightarrow> py_error + SampleData" where
  "SampleData_init n dt bsize split drawn =
     (if dt \<notin> valid_dtypes then Inl ValueError
      else if bsize = 0 then Inl ZeroDivisionError
      else if n mod bsize \<noteq> 0 then Inl ValueError
      else case (bitwidth_of dt, np_dtype_of dt) of
        (Some w, Some npd) \<Rightarrow>
          (case drawn of Inl e \<Rightarrow> Inl e | Inr (x0, x1) \<Rightarrow>
           case calc_y x0 x1 dt of Inl e \<Rightarrow> Inl e | Inr y \<Rightarrow>
           let x0b = arr2inbits npd x0; x1b = arr2inbits npd x1; yb = arr2inbits npd y in
           case reshape_rows x0b n w of Inl e \<Rightarrow> Inl e | Inr x0s \<Rightarrow>
           case reshape_rows x1b n w of Inl e \<Rightarrow> Inl e | Inr x1s \<Rightarrow>
           case reshape_rows yb n w of Inl e \<Rightarrow> Inl e | Inr ys \<Rightarrow>
           split_batches
             \<lparr>sd_dtype = dt, bitwidth = w, x0_uint = x0, x1_uint = x1, y_uint = y,
              x0_bits = x0b, x1_bits = x1b, y_bits = yb,
              x0_samples_bits = x0s, x1_samples_bits = x1s,
              x_samples_bits_dims = map2 (map2 (\<lambda>a b. [a, b])) x0s x1s,
              y_samples_bits_dims = map (map (\<lambda>b. [b])) ys,
              batch_count = 0, x_all = [], y_all = [], x_train = [], y_train = [],
              x_validation = [], y_validation = []\<rparr> n bsize split)
      | _ \<Rightarrow> Inl AttributeError)"

section \<open>Recurrent cell\<close>

text \<open>
  The network computes on float32 tensors with TensorFlow's operations. Their arithmetic
  is not modelled: the tensor type is a type variable and the operations the code calls
  are the fields of a record, so that what is proved holds for whatever they compute.
  \<open>feed\<close> is the conversion of an integer matrix fed into a float placeholder;
  \<open>np_around\<close> is \<open>np.around\<close> of a one-entry prediction followed by the cast to the
  unsigned dtype.
\<close>

record 't tensor_ops =
  tf_matmul :: "'t \<Rightarrow> 't \<Rightarrow> 't"
  tf_add :: "'t \<Rightarrow> 't \<Rightarrow> 't"
  tf_relu :: "'t \<Rightarrow> 't"
  tf_sigmoid :: "'t \<Rightarrow> 't"
  np_zeros :: "nat \<Rightarrow> nat \<Rightarrow> 't"
  feed :: "nat list list \<Rightarrow> 't"
  np_around :: "'t \<Rightarrow> nat"

text \<open>The variables \<open>self._weights\<close> and \<open>self._bias\<close> (randomly initialised, then
  trained).\<close>

record 't weights =
  w_h_o :: 't
  b_o :: 't
  w_i_h :: 't
  w_h_h :: 't
  b_h :: 't

text \<open>The loop of the manual branch over \<open>self._x_series\<close>; it returns \<open>self._h\<close> and
  \<open>self._logits_series\<close>.\<close>

fun unroll :: "'t tensor_ops \<Rightarrow> 't weights \<Rightarrow> 't list \<Rightarrow> 't \<Rightarrow> 't list \<times> 't list" where
  "unroll ops W [] h_0 = ([], [])"
| "unroll ops W (current_input # x_series) h_0 =
     (let temp_h_1 = tf_add ops (tf_matmul ops current_input (w_i_h W)) (b_h W);
          h_1 = tf_relu ops (tf_add ops temp_h_1 (tf_matmul ops h_0 (w_h_h W)));
          o_1_logit = tf_add ops (tf_matmul ops h_1 (w_h_o W)) (b_o W);
          (h, logits_series) = unroll ops W x_series h_1
      in (h_1 # h, o_1_logit # logits_series))"

text \<open>
  An \<open>RnnCell\<close> as the rest of the notebook uses it: the length of the time axis of the
  placeholder \<open>x\<close>, and \<open>predictions_series\<close> as a function of the values fed for \<open>x\<close>
  (unstacked along the time axis) and for \<open>initial_state\<close>. In the branch
  \<open>use_tf_rnn_api=True\<close> the hidden states come from \<open>tf.nn.dynamic_rnn\<close> on a
  \<open>BasicRNNCell\<close>, library code that is a parameter here.
\<close>

record 't RnnCell =
  x_bitwidth :: nat
  predictions_series :: "'t list \<Rightarrow> 't \<Rightarrow> 't list"

definition RnnCell_init ::
  "'t tensor_ops \<Rightarrow> 't weights \<Rightarrow> ('t list \<Rightarrow> 't \<Rightarrow> 't list) \<Rightarrow> nat \<Rightarrow> bool \<Rightarrow> 't RnnCell" where
  "RnnCell_init ops W dynamic_rnn bw use_api =
     (let logits_series =
            (if \<not> use_api then (\<lambda>x_series initial_state. snd (unroll ops W x_series initial_state))
             else (\<lambda>x_series initial_state.
                     map (\<lambda>state. tf_add ops (tf_matmul ops state (w_h_o W)) (b_o W))
                       (dynamic_rnn x_series initial_state)))
      in \<lparr>x_bitwidth = bw,
          predictions_series = (\<lambda>x_series initial_state.
             map (tf_sigmoid ops) (logits_series x_series initial_state))\<rparr>)"

section \<open>Interactive calculator\<close>

subsection \<open>Strings\<close>

text \<open>
  \<open>int(s)\<close> on an ASCII string: the surrounding whitespace (the space and the characters
  0x09 to 0x0D) is dropped, one sign is allowed, and the digits may be grouped by single
  underscores. Characters are bytes here. On a string with a non-ASCII character Python
  also accepts the other Unicode spaces and decimal digits, which \<open>py_int\<close> does not
  model: what is proved of a parsed reply is proved of ASCII replies (\<open>is_ascii\<close>).
\<close>

definition is_ascii :: "string \<Rightarrow> bool" where
  "is_ascii s \<longleftrightarrow> list_all (\<lambda>c. of_char c < (128 :: nat)) s"

definition is_space :: "char \<Rightarrow> bool" where
  "is_space c \<longleftrightarrow> c \<in> set [CHR '' '', CHR 0x09, CHR 0x0A, CHR 0x0B, CHR 0x0C, CHR 0x0D]"

definition strip :: "string \<Rightarrow> string" where
  "strip s = rev (dropWhile is_space (rev (dropWhile is_space s)))"

definition digit_of :: "char \<Rightarrow> nat option" where
  "digit_of c = map_of [(CHR ''0'', 0), (CHR ''1'', 1), (CHR ''2'', 2), (CHR ''3'', 3),
     (CHR ''4'', 4), (CHR ''5'', 5), (CHR ''6'', 6), (CHR ''7'', 7), (CHR ''8'', 8),
     (CHR ''9'', 9)] c"

fun digits_value :: "nat \<Rightarrow> string \<Rightarrow> nat option" where
  "digits_value acc [] = Some acc"
| "digits_value acc (c # cs) =
     (case digit_of c of
        Some d \<Rightarrow> digits_value (10 * acc + d) cs
      | None \<Rightarrow>
          if c = CHR ''_'' then
            (case cs of
               [] \<Rightarrow> None
             | c' # _ \<Rightarrow> (case digit_of c' of None \<Rightarrow> None | Some _ \<Rightarrow> digits_value acc cs))
          else None)"

definition py_int :: "string \<Rightarrow> int option" where
  "py_int s =
     (let t = strip s;
          (neg, body) = (case t of
                           [] \<Rightarrow> (False, t)
                         | c # cs \<Rightarrow> if c = CHR ''-'' then (True, cs)
                                     else if c = CHR ''+'' then (False, cs)
                                     else (False, t))
      in case body of
           [] \<Rightarrow> None
         | c # _ \<Rightarrow>
             (case digit_of c of
                None \<Rightarrow> None
              | Some _ \<Rightarrow>
                  (case digits_value 0 body of
                     None \<Rightarrow> None
                   | Some n \<Rightarrow> Some (if neg then - int n else int n))))"

text \<open>\<open>str\<close> of a non-negative integer, as \<open>format\<close> writes it.\<close>

definition digit_char :: "nat \<Rightarrow> char" where
  "digit_char d = ''0123456789'' ! d"

fun show_nat :: "nat \<Rightarrow> string" where
  "show_nat n = (if n < 10 then [digit_char n] else show_nat (n div 10) @ [digit_char (n mod 10)])"

declare show_nat.simps [simp del]

fun join :: "string \<Rightarrow> string list \<Rightarrow> string" where
  "join sep [] = []"
| "join sep [x] = x"
| "join sep (x # y # ys) = x @ sep @ join sep (y # ys)"

text \<open>\<open>str\<close> of a one-dimensional integer array of one-digit entries that fits a line,
  as the bit arrays here do.\<close>

definition array_str :: "nat list \<Rightarrow> string" where
  "array_str a = ''['' @ join '' '' (map show_nat a) @ '']''"

text \<open>\<open>s in t\<close> on strings: \<open>s\<close> occurs in \<open>t\<close> as a contiguous piece.\<close>

fun str_contains :: "string \<Rightarrow> string \<Rightarrow> bool" where
  "str_contains [] s = (s = [])"
| "str_contains (c # t) s = (prefix s (c # t) \<or> str_contains t s)"

subsection \<open>The calculator\<close>

text \<open>
  What the user sees and what the session does is a trace: a prompt of \<open>input\<close>, a line
  of \<open>print\<close>, a call of \<open>sess.run\<close>. The user's replies are a list of strings; when it is
  used up, \<open>input\<close> raises \<open>EOFError\<close>. A run ends by \<open>break\<close> or by an exception, which
  nothing in the notebook catches.
\<close>

datatype event = Prompt string | Print string | Run_session

datatype outcome = Finished | Raised py_error

record 't RNNCalc =
  rnn :: "'t RnnCell"
  max_val :: "nat option"
  calc_dtype :: "string option"
  calc_np_dtype :: "np_dtype option"

definition RNNCalc_init :: "string \<Rightarrow> 't RnnCell \<Rightarrow> 't RNNCalc" where
  "RNNCalc_init dt rn =
     \<lparr>rnn = rn, max_val = max_val_of dt,
      calc_dtype = (if dt \<in> valid_dtypes then Some dt else None),
      calc_np_dtype = np_dtype_of dt\<rparr>"

text \<open>\<open>RNNCalc._check_input\<close>, on the reply \<open>input\<close> returned.\<close>

definition check_input :: "nat \<Rightarrow> string \<Rightarrow> string \<Rightarrow> event list \<times> nat option" where
  "check_input mv input_str x_unsafe =
     (case py_int x_unsafe of
        None \<Rightarrow> ([Prompt input_str, Print ''Not an integer!''], None)
      | Some v \<Rightarrow>
          if v < 0 then ([Prompt input_str, Print ''Input must not be less than 0''], None)
          else if v > int mv then
            ([Prompt input_str, Print (''Input must not be greater than '' @ show_nat mv)], None)
          else ([Prompt input_str], Some (nat v)))"

definition prompt_x0 :: "nat \<Rightarrow> string" where
  "prompt_x0 mv = ''Please input x0 in range 0 to '' @ show_nat mv"

definition prompt_x1 :: "nat \<Rightarrow> string" where
  "prompt_x1 mv = ''Please input x1 in range 0 to '' @ show_nat mv"

definition prompt_new :: string where
  "prompt_new = ''Do you wish to perform a new calculation? (y/N)''"

text \<open>The body of \<open>if x0 is not None and x1 is not None\<close> in \<open>RNNCalc.run\<close>. Feeding
  \<open>x\<close> raises when its time axis is not the placeholder's; \<open>np.reshape(..., [32])\<close> raises
  when there are not 32 predictions.\<close>

definition calculation ::
  "'t tensor_ops \<Rightarrow> 't RnnCell \<Rightarrow> string \<Rightarrow> np_dtype \<Rightarrow> nat \<Rightarrow> nat \<Rightarrow> event list \<times> (py_error + unit)" where
  "calculation ops rn dt npd x0 x1 =
     (let x0_bits = arr2inbits npd [astype npd x0];
          x1_bits = arr2inbits npd [astype npd x1];
          x = map2 (\<lambda>a b. [a, b]) x0_bits x1_bits;
          shown = [Print (''x0 int val: '' @ show_nat x0),
                   Print (''x0 bin val: '' @ array_str x0_bits),
                   Print (''x0 int val: '' @ show_nat x1),
                   Print (''x0 bin val: '' @ array_str x1_bits)]
      in if length x \<noteq> x_bitwidth rn then (shown, Inl ValueError)
         else
           let predictions = predictions_series rn (map (\<lambda>row. feed ops [row]) x)
                               (np_zeros ops 1 hidden_neurons);
               rounded_predictions = map (np_around ops) predictions
           in if length rounded_predictions \<noteq> 32 then (shown @ [Run_session], Inl ValueError)
              else
                let predictions_cleaned = map (astype npd) rounded_predictions
                in case bits2arr predictions_cleaned dt of
                     Inl e \<Rightarrow> (shown @ [Run_session], Inl e)
                   | Inr [] \<Rightarrow> (shown @ [Run_session], Inl IndexError)
                   | Inr (y # _) \<Rightarrow>
                       (shown @ [Run_session,
                          Print (''y  int val: '' @ show_nat y @ '' and correct answer is ''
                                 @ show_nat (x0 + x1)),
                          Print (''y  bin val: '' @ array_str predictions_cleaned)],
                        Inr ()))"

text \<open>One pass of the \<open>while True\<close> body up to the continuation prompt, on the two
  replies to the operand prompts.\<close>

definition round_body ::
  "'t tensor_ops \<Rightarrow> 't RnnCell \<Rightarrow> nat \<Rightarrow> string \<Rightarrow> np_dtype \<Rightarrow> string \<Rightarrow> string \<Rightarrow>
   event list \<times> (py_error + unit)" where
  "round_body ops rn mv dt npd r0 r1 =
     (let (ev0, x0) = check_input mv (prompt_x0 mv) r0;
          (ev1, x1) = check_input mv (prompt_x1 mv) r1
      in case (x0, x1) of
           (Some a, Some b) \<Rightarrow>
             (let (ev, res) = calculation ops rn dt npd a b in (ev0 @ ev1 @ ev, res))
         | _ \<Rightarrow> (ev0 @ ev1, Inr ()))"

fun run_loop ::
  "'t tensor_ops \<Rightarrow> 't RnnCell \<Rightarrow> nat \<Rightarrow> string \<Rightarrow> np_dtype \<Rightarrow> string list \<Rightarrow> event list \<times> outcome" where
  "run_loop ops rn mv dt npd [] = ([Prompt (prompt_x0 mv)], Raised EOFError)"
| "run_loop ops rn mv dt npd [r0] =
     (fst (check_input mv (prompt_x0 mv) r0) @ [Prompt (prompt_x1 mv)], Raised EOFError)"
| "run_loop ops rn mv dt npd [r0, r1] =
     (case round_body ops rn mv dt npd r0 r1 of
        (ev, Inl e) \<Rightarrow> (ev, Raised e)
      | (ev, Inr _) \<Rightarrow> (ev @ [Prompt prompt_new], Raised EOFError))"
| "run_loop ops rn mv dt npd (r0 # r1 # user_input # replies) =
     (case round_body ops rn mv dt npd r0 r1 of
        (ev, Inl e) \<Rightarrow> (ev, Raised e)
      | (ev, Inr _) \<Rightarrow>
          if \<not> str_contains ''Yy'' user_input then (ev @ [Prompt prompt_new], Finished)
          else (let (evs, out) = run_loop ops rn mv dt npd replies
                in (ev @ [Prompt prompt_new] @ evs, out)))"

text \<open>\<open>RNNCalc.run\<close>: the attributes are read first; they are missing when the dtype
  name was none of the three.\<close>

definition run :: "'t tensor_ops \<Rightarrow> 't RNNCalc \<Rightarrow> string list \<Rightarrow> event list \<times> outcome" where
  "run ops c replies =
     (case (max_val c, calc_dtype c, calc_np_dtype c) of
        (Some mv, Some dt, Some npd) \<Rightarrow> run_loop ops (rnn c) mv dt npd replies
      | _ \<Rightarrow> ([], Raised AttributeError))"

section \<open>Auxiliary notions for the proofs\<close>

text \<open>The bits of a number, most significant first, at any width, and the value of a
  bit list read the same way (a nonzero entry counts as one). They generalise
  \<open>unpackbits_byte\<close> and \<open>packbits_byte\<close> and are used in proofs only.\<close>

definition bits_msb :: "nat \<Rightarrow> nat \<Rightarrow> nat list" where
  "bits_msb n v = map (\<lambda>i. (v div 2 ^ (n - 1 - i)) mod 2) [0..<n]"

definition val_msb :: "nat list \<Rightarrow> nat" where
  "val_msb g = foldl (\<lambda>acc b. 2 * acc + (if b \<noteq> 0 then 1 else 0)) 0 g"

text \<open>A small instance of the tensor operations, on integers, for concrete runs of the
  model: products and sums of integers, \<open>max 0\<close> for the rectifier, the identity for the
  sigmoid, and rounding to the parity. With these weights the cell outputs, at each step,
  the sum of the two operand bits modulo 2.\<close>

definition example_ops :: "int tensor_ops" where
  "example_ops =
     \<lparr>tf_matmul = (*), tf_add = (+), tf_relu = max 0, tf_sigmoid = (\<lambda>x. x),
      np_zeros = (\<lambda>r c. 0), feed = (\<lambda>m. int (sum_list (concat m))),
      np_around = (\<lambda>x. nat x mod 2)\<rparr>"

definition example_weights :: "int weights" where
  "example_weights = \<lparr>w_h_o = 1, b_o = 0, w_i_h = 1, w_h_h = 0, b_h = 0\<rparr>"

definition example_rnn :: "nat \<Rightarrow> int RnnCell" where
  "example_rnn bw = RnnCell_init example_ops example_weights (\<lambda>x_series initial_state. x_series) bw False"

section \<open>Bit codec: round trips\<close>

lemma bits_msb_Suc: "bits_msb (Suc n) v = bits_msb n (v div 2) @ [v mod 2]"
proof -
  have "v div 2 ^ (n - x) mod 2 = v div 2 div 2 ^ (n - Suc x) mod 2" if "x < n" for x
  proof -
    from that have "n - x = Suc (n - Suc x)" by arith
    then show ?thesis by (simp add: div_mult2_eq)
  qed
  then show ?thesis by (simp add: bits_msb_def)
qed

lemma val_msb_snoc: "val_msb (g @ [b]) = 2 * val_msb g + (if b \<noteq> 0 then 1 else 0)"
  by (simp add: val_msb_def)

lemma val_bits_msb: "val_msb (bits_msb n v) = v mod 2 ^ n"
proof (induction n arbitrary: v)
  case 0 show ?case by (simp add: bits_msb_def val_msb_def)
next
  case (Suc n)
  have "v mod 2 ^ Suc n = 2 * ((v div 2) mod 2 ^ n) + v mod 2"
    by (simp add: mod_mult2_eq)
  then show ?case using Suc[of "v div 2"]
    by (auto simp: bits_msb_Suc val_msb_snoc)
qed

lemma bits_val_msb:
  "set g \<subseteq> {0, 1} \<Longrightarrow> bits_msb (length g) (val_msb g) = g"
proof (induction g rule: rev_induct)
  case Nil show ?case by (simp add: bits_msb_def)
next
  case (snoc b g)
  then have b: "b = 0 \<or> b = 1" and g: "set g \<subseteq> {0,1}" by auto
  from b snoc.IH[OF g] show ?case
    by (auto simp: bits_msb_Suc val_msb_snoc)
qed

lemma unpackbits_byte_msb: "unpackbits_byte b = bits_msb 8 b"
  by (simp add: unpackbits_byte_def bits_msb_def)

lemma packbits_byte_full: "length g = 8 \<Longrightarrow> packbits_byte g = val_msb g"
  by (simp add: packbits_byte_def val_msb_def)

lemma length_bits_msb [simp]: "length (bits_msb n v) = n"
  by (simp add: bits_msb_def)

lemma packbits_append8:
  "length g = 8 \<Longrightarrow> packbits (g @ rest) = packbits_byte g # packbits rest"
  by (subst packbits.simps) auto

lemma packbits_Nil [simp]: "packbits [] = []"
  by (simp add: packbits.simps)

lemma packbits_unpackbits: "\<forall>b \<in> set bs. b < 256 \<Longrightarrow> packbits (unpackbits bs) = bs"
proof (induction bs)
  case Nil show ?case by (simp add: unpackbits_def)
next
  case (Cons b bs)
  then have "packbits (unpackbits bs) = bs" and "b < 256" by simp_all
  then show ?case
    by (simp add: unpackbits_def packbits_append8 unpackbits_byte_msb packbits_byte_full val_bits_msb)
qed

lemma unpackbits_packbits:
  "8 dvd length bits \<Longrightarrow> set bits \<subseteq> {0, 1} \<Longrightarrow> unpackbits (packbits bits) = bits"
proof (induction bits rule: packbits.induct)
  case (1 xs)
  show ?case
  proof (cases "xs = []")
    case True then show ?thesis by (simp add: unpackbits_def)
  next
    case False
    with "1.prems" have len: "8 \<le> length xs" by (simp add: dvd_imp_le)
    then have l8: "length (take 8 xs) = 8" by simp
    have d: "8 dvd length (drop 8 xs)" using "1.prems"(1) len
      by (simp add: dvd_diff_nat)
    have s: "set (drop 8 xs) \<subseteq> {0,1}" "set (take 8 xs) \<subseteq> {0,1}"
      using "1.prems"(2) by (meson set_drop_subset set_take_subset subset_trans)+
    have ih: "unpackbits (packbits (drop 8 xs)) = drop 8 xs"
      using "1.IH"[OF False d s(1)] .
    have "unpackbits_byte (packbits_byte (take 8 xs)) = take 8 xs"
      using bits_val_msb[OF s(2)] l8 by (simp add: unpackbits_byte_msb packbits_byte_full)
    then have "unpackbits (packbits xs) = take 8 xs @ drop 8 xs"
      using False ih by (subst packbits.simps) (simp add: unpackbits_def)
    then show ?thesis by simp
  qed
qed

lemma bits_msb_mod: "bits_msb k (v mod 2 ^ k) = bits_msb k v"
proof (induction k arbitrary: v)
  case 0 show ?case by (simp add: bits_msb_def)
next
  case (Suc k)
  have a: "v mod (2 * 2 ^ k) div 2 = (v div 2) mod 2 ^ k"
    by (simp add: mod_mult2_eq)
  have b: "v mod (2 * 2 ^ k) mod 2 = v mod 2"
    by (simp add: mod_mult2_eq)
  show ?case by (simp add: bits_msb_Suc a b Suc)
qed

lemma bits_msb_add: "bits_msb (m + k) v = bits_msb m (v div 2 ^ k) @ bits_msb k v"
proof (induction k arbitrary: v)
  case 0 show ?case by (simp add: bits_msb_def)
next
  case (Suc k)
  have "bits_msb (m + Suc k) v = bits_msb (m + k) (v div 2) @ [v mod 2]"
    by (simp add: bits_msb_Suc)
  also have "\<dots> = bits_msb m (v div 2 div 2 ^ k) @ bits_msb k (v div 2) @ [v mod 2]"
    by (simp add: Suc)
  finally show ?case by (simp add: bits_msb_Suc div_mult2_eq)
qed

lemma rev_bits_msb: "rev (bits_msb n v) = map (\<lambda>i. (v div 2 ^ i) mod 2) [0..<n]"
proof (induction n arbitrary: v)
  case 0 show ?case by (simp add: bits_msb_def)
next
  case (Suc n)
  have "map (\<lambda>i. (v div 2 ^ i) mod 2) [0..<Suc n] =
        (v mod 2) # map (\<lambda>i. (v div 2 div 2 ^ i) mod 2) [0..<n]"
    by (simp add: upt_conv_Cons map_Suc_upt[symmetric] div_mult2_eq del: upt_Suc)
  then show ?case by (simp add: bits_msb_Suc Suc del: upt_Suc)
qed

lemma val_msb_append: "val_msb (g @ h) = val_msb g * 2 ^ length h + val_msb h"
  by (induction h rule: rev_induct)
     (simp_all add: val_msb_snoc add_mult_distrib2 flip: append_assoc, simp add: val_msb_def)

lemma val_msb_less: "val_msb g < 2 ^ length g"
  by (induction g rule: rev_induct) (auto simp: val_msb_snoc val_msb_def)

lemma arr2inbits_single: "arr2inbits dt [v] = rev (bits_msb (8 * itemsize dt) v)"
proof -
  have b8: "\<And>x. bits_msb 8 (x mod 256) = bits_msb 8 x"
    using bits_msb_mod[of 8] by simp
  have "unpackbits (bytes_be (itemsize dt) v) = bits_msb (8 * itemsize dt) v"
  proof (cases dt)
    case np_uint8
    then show ?thesis
      by (simp add: unpackbits_def bytes_be_def unpackbits_byte_msb b8)
  next
    case np_uint16
    have "bits_msb (8 + 8) v = bits_msb 8 (v div 2 ^ 8) @ bits_msb 8 v" by (rule bits_msb_add)
    with np_uint16 show ?thesis
      by (simp add: unpackbits_def bytes_be_def unpackbits_byte_msb b8 upt_conv_Cons)
  next
    case np_uint32
    have h1: "bits_msb 32 v = bits_msb 24 (v div 256) @ bits_msb 8 v"
      using bits_msb_add[of 24 8 v] by simp
    have h2: "bits_msb 24 (v div 256) = bits_msb 16 (v div 65536) @ bits_msb 8 (v div 256)"
      using bits_msb_add[of 16 8 "v div 256"] by (simp add: div_mult2_eq[symmetric])
    have h3: "bits_msb 16 (v div 65536) = bits_msb 8 (v div 16777216) @ bits_msb 8 (v div 65536)"
      using bits_msb_add[of 8 8 "v div 65536"] by (simp add: div_mult2_eq[symmetric])
    show ?thesis using np_uint32
      by (simp add: unpackbits_def bytes_be_def unpackbits_byte_msb b8 upt_conv_Cons h1 h2 h3)
  qed
  then show ?thesis by (simp add: arr2inbits_def)
qed

lemma packbits_step:
  "8 \<le> length g \<Longrightarrow> packbits g = val_msb (take 8 g) # packbits (drop 8 g)"
  by (subst packbits.simps) (auto simp: packbits_byte_full)

lemma rows_of_exact: "length xs = n \<Longrightarrow> 0 < n \<Longrightarrow> rows_of n xs = [xs]"
  by (subst rows_of.simps) (auto simp: rows_of.simps[of n "[]"])

lemma bits2arr_uint8: "length x = 8 \<Longrightarrow> bits2arr x ''uint8'' = Inr [val_msb (rev x)]"
  by (simp add: bits2arr_def packbits_step)

lemma bits2arr_uint16:
  assumes "length x = 16" shows "bits2arr x ''uint16'' = Inr [val_msb (rev x)]"
proof -
  define g where "g = rev x"
  have len: "length g = 16" using assms by (simp add: g_def)
  have p: "packbits g = [val_msb (take 8 g), val_msb (drop 8 g)]"
    using len by (simp add: packbits_step)
  have "val_msb (take 8 g @ drop 8 g) = val_msb (take 8 g) * 2 ^ length (drop 8 g) + val_msb (drop 8 g)"
    by (rule val_msb_append)
  then have v: "val_msb g = 256 * val_msb (take 8 g) + val_msb (drop 8 g)"
    using len by simp
  show ?thesis
    unfolding bits2arr_def Let_def g_def[symmetric] p
    by (simp add: reshape_rows_def rows_of_exact weighted_rows_def v)
qed

lemma bits2arr_uint32:
  assumes "length x = 32" shows "bits2arr x ''uint32'' = Inr [val_msb (rev x)]"
proof -
  define g where "g = rev x"
  define g1 where "g1 = drop 8 g"
  define g2 where "g2 = drop 8 g1"
  define g3 where "g3 = drop 8 g2"
  have len: "length g = 32" "length g1 = 24" "length g2 = 16" "length g3 = 8"
    using assms by (simp_all add: g_def g1_def g2_def g3_def)
  have p: "packbits g = [val_msb (take 8 g), val_msb (take 8 g1), val_msb (take 8 g2), val_msb g3]"
    using len by (simp add: packbits_step g1_def[symmetric] g2_def[symmetric] g3_def[symmetric])
  have s: "val_msb (take 8 h @ drop 8 h) = val_msb (take 8 h) * 2 ^ length (drop 8 h) + val_msb (drop 8 h)" for h
    by (rule val_msb_append)
  have "val_msb g = 2 ^ 24 * val_msb (take 8 g) + val_msb g1"
    using s[of g] len by (simp add: g1_def)
  moreover have "val_msb g1 = 2 ^ 16 * val_msb (take 8 g1) + val_msb g2"
    using s[of g1] len by (simp add: g2_def)
  moreover have "val_msb g2 = 2 ^ 8 * val_msb (take 8 g2) + val_msb g3"
    using s[of g2] len by (simp add: g3_def)
  ultimately have v: "val_msb g = 2 ^ 24 * val_msb (take 8 g) + 2 ^ 16 * val_msb (take 8 g1)
      + 2 ^ 8 * val_msb (take 8 g2) + val_msb g3" by simp
  show ?thesis
    unfolding bits2arr_def Let_def g_def[symmetric] p
    by (simp add: reshape_rows_def rows_of_exact weighted_rows_def v)
qed

lemma bits2arr_width:
  assumes "bitwidth_of dn = Some w" "length x = w"
  shows "bits2arr x dn = Inr [val_msb (rev x)]"
  using assms bits2arr_uint8 bits2arr_uint16 bits2arr_uint32
  by (auto simp: bitwidth_of_def split: if_splits)

lemma dtype_width:
  "np_dtype_of dn = Some dt \<Longrightarrow> bitwidth_of dn = Some w \<Longrightarrow> w = 8 * itemsize dt"
  by (auto simp: np_dtype_of_def bitwidth_of_def split: if_splits)

text \<open>
  Claim C1. For each of the three dtypes (widths 8, 16 and 32) the codec is a bijection
  between the integers below \<open>2 ^ w\<close> and the bit vectors of length \<open>w\<close>: encoding a
  value gives its \<open>w\<close> bits, least significant first, and decoding them gives the value
  back; every vector of \<open>w\<close> bits decodes to a value below \<open>2 ^ w\<close> whose encoding is the
  vector.
\<close>

theorem codec_roundtrip:
  assumes "np_dtype_of dn = Some dt" and "bitwidth_of dn = Some w"
  shows "(\<forall>v < 2 ^ w. arr2inbits dt [v] = map (\<lambda>i. (v div 2 ^ i) mod 2) [0..<w] \<and>
                      bits2arr (arr2inbits dt [v]) dn = Inr [v])
       \<and> (\<forall>b. length b = w \<and> set b \<subseteq> {0, 1} \<longrightarrow>
              (\<exists>v < 2 ^ w. bits2arr b dn = Inr [v] \<and> arr2inbits dt [v] = b))"
proof (intro conjI allI impI)
  fix v :: nat assume v: "v < 2 ^ w"
  have w: "w = 8 * itemsize dt" using assms by (rule dtype_width)
  show "arr2inbits dt [v] = map (\<lambda>i. (v div 2 ^ i) mod 2) [0..<w]"
    by (simp add: arr2inbits_single rev_bits_msb w)
  have "bits2arr (rev (bits_msb w v)) dn = Inr [val_msb (rev (rev (bits_msb w v)))]"
    using assms(2) by (rule bits2arr_width) simp
  then show "bits2arr (arr2inbits dt [v]) dn = Inr [v]"
    using v by (simp add: arr2inbits_single val_bits_msb w)
next
  fix b :: "nat list" assume b: "length b = w \<and> set b \<subseteq> {0, 1}"
  have w: "w = 8 * itemsize dt" using assms by (rule dtype_width)
  let ?v = "val_msb (rev b)"
  have "?v < 2 ^ w" using val_msb_less[of "rev b"] b by simp
  moreover have "bits2arr b dn = Inr [?v]"
    using assms(2) b by (simp add: bits2arr_width)
  moreover have "bits_msb (length (rev b)) (val_msb (rev b)) = rev b"
    using b by (intro bits_val_msb) simp
  then have "arr2inbits dt [?v] = b"
    using b by (simp add: arr2inbits_single w[symmetric])
  ultimately show "\<exists>v<2 ^ w. bits2arr b dn = Inr [v] \<and> arr2inbits dt [v] = b"
    by blast
qed

theorem codec_roundtrip_witness:
  "np_dtype_of ''uint32'' = Some np_uint32 \<and> bitwidth_of ''uint32'' = Some 32
   \<and> (3 :: nat) < 2 ^ 32
   \<and> arr2inbits np_uint32 [3] = map (\<lambda>i. (3 div 2 ^ i) mod 2) [0..<32]
   \<and> bits2arr (arr2inbits np_uint32 [3]) ''uint32'' = Inr [3]
   \<and> length (1 # 1 # replicate 30 (0 :: nat)) = 32
   \<and> set (1 # 1 # replicate 30 (0 :: nat)) \<subseteq> {0, 1}
   \<and> (\<exists>v < 2 ^ 32. bits2arr (1 # 1 # replicate 30 0) ''uint32'' = Inr [v]
                    \<and> arr2inbits np_uint32 [v] = 1 # 1 # replicate 30 0)"
proof -
  have d: "np_dtype_of ''uint32'' = Some np_uint32" by (simp add: np_dtype_of_def)
  have w: "bitwidth_of ''uint32'' = Some 32" by (simp add: bitwidth_of_def)
  have v: "(3 :: nat) < 2 ^ 32" by simp
  have b: "length (1 # 1 # replicate 30 (0 :: nat)) = 32
           \<and> set (1 # 1 # replicate 30 (0 :: nat)) \<subseteq> {0, 1}" by simp
  from codec_roundtrip [OF d w] v b show ?thesis
    using d w by blast
qed

section \<open>Sample generator: properties\<close>

lemma calc_y_Inr:
  assumes "bitwidth_of dn = Some w" and "calc_y x0 x1 dn = Inr y"
  shows "length x0 = length x1 \<and> y = map2 (\<lambda>a b. (a + b) mod 2 ^ w) x0 x1"
proof -
  have m: "map (\<lambda>row. f (sum_list row)) (map2 (\<lambda>a b. [a, b]) x0 x1) = map2 (\<lambda>a b. f (a + b)) x0 x1"
    for f :: "nat \<Rightarrow> nat"
    by (simp add: map_zip_map2 case_prod_beta zip_map_fst_snd[symmetric] del: zip_map_fst_snd) 
  from assms show ?thesis
    by (auto simp: calc_y_def bitwidth_of_def Let_def m astype_def split: if_splits)
qed

lemma calc_y_ok:
  assumes "bitwidth_of dn = Some w" and "length x0 = length x1"
  shows "calc_y x0 x1 dn = Inr (map2 (\<lambda>a b. (a + b) mod 2 ^ w) x0 x1)"
proof -
  have m: "map (\<lambda>row. f (sum_list row)) (map2 (\<lambda>a b. [a, b]) x0 x1) = map2 (\<lambda>a b. f (a + b)) x0 x1"
    for f :: "nat \<Rightarrow> nat"
    by (simp add: map_zip_map2 case_prod_beta zip_map_fst_snd[symmetric] del: zip_map_fst_snd) 
  from assms show ?thesis
    by (auto simp: calc_y_def bitwidth_of_def Let_def m astype_def split: if_splits)
qed

lemma SampleData_init_fields:
  assumes "SampleData_init n dn bsize split (Inr (x0, x1)) = Inr sd"
  shows "x0_uint sd = x0 \<and> x1_uint sd = x1 \<and> calc_y x0 x1 dn = Inr (y_uint sd)
       \<and> bitwidth_of dn = Some (bitwidth sd)"
  using assms
  by (auto simp: SampleData_init_def split_batches_def Let_def
           split: if_splits option.splits sum.splits prod.splits)

lemma length_unpackbits: "length (unpackbits bs) = 8 * length bs"
  by (induction bs) (simp_all add: unpackbits_def unpackbits_byte_def)

lemma length_arr2inbits: "length (arr2inbits npd xs) = 8 * itemsize npd * length xs"
proof -
  have "length (concat (map (bytes_be k) xs)) = k * length xs" for k
    by (induction xs) (simp_all add: bytes_be_def)
  then show ?thesis by (simp add: arr2inbits_def length_unpackbits)
qed

lemma length_rows_of: "0 < k \<Longrightarrow> length xs = r * k \<Longrightarrow> length (rows_of k xs) = r"
proof (induction r arbitrary: xs)
  case 0 then show ?case by (simp add: rows_of.simps)
next
  case (Suc r)
  then have "xs \<noteq> []" and "length (drop k xs) = r * k" by auto
  with Suc show ?case by (subst rows_of.simps) simp
qed

lemma np_split_ok:
  assumes "0 < k" and "0 < m" and "length xs = k * m"
  shows "\<exists>parts. np_split xs k = Inr parts \<and> length parts = k"
proof -
  have "xs \<noteq> []" using assms by auto
  moreover have "length xs div k = m" using assms by simp
  moreover have "length (rows_of m xs) = k" using assms by (intro length_rows_of) simp_all
  ultimately show ?thesis using assms by (simp add: np_split_def)
qed

lemma SampleData_init_ok:
  assumes dt: "bitwidth_of dn = Some w" "np_dtype_of dn = Some npd"
    and b: "0 < bsize" and n: "n = bc * bsize" and bc: "0 < bc"
    and bcq: "batch_count_of n bsize = Inr bc"
    and len: "length x0 = n" "length x1 = n"
    and tb: "train_batches_of split bc = Inr tb" "2 \<le> tb" "tb < int bc"
  shows "\<exists>sd. SampleData_init n dn bsize split (Inr (x0, x1)) = Inr sd
     \<and> batch_count sd = bc \<and> length (x_all sd) = bc \<and> length (y_all sd) = bc
     \<and> x_train sd = take (nat (tb - 1)) (x_all sd) \<and> x_validation sd = drop (nat tb) (x_all sd)
     \<and> y_train sd = take (nat (tb - 1)) (y_all sd) \<and> y_validation sd = drop (nat tb) (y_all sd)"
proof -
  have valid: "dn \<in> valid_dtypes"
    using dt(1) by (auto simp: bitwidth_of_def valid_dtypes_def split: if_splits)
  have w8: "w = 8 * itemsize npd" using dt(2,1) by (rule dtype_width)
  then have wpos: "0 < w" by (cases npd) simp_all
  obtain y where y: "calc_y x0 x1 dn = Inr y" and ly: "length y = n"
    using calc_y_ok [OF dt(1), of x0 x1] len by simp
  have lb: "length (arr2inbits npd x0) = n * w" "length (arr2inbits npd x1) = n * w"
    "length (arr2inbits npd y) = n * w"
    using len ly by (simp_all add: length_arr2inbits w8)
  have r: "reshape_rows (arr2inbits npd v) n w = Inr (rows_of w (arr2inbits npd v))"
    "length (rows_of w (arr2inbits npd v)) = n" if "length v = n" for v
    using that wpos by (simp_all add: reshape_rows_def length_arr2inbits w8 length_rows_of)
  let ?x0s = "rows_of w (arr2inbits npd x0)" and ?x1s = "rows_of w (arr2inbits npd x1)"
  let ?ys = "rows_of w (arr2inbits npd y)"
  let ?xd = "map2 (map2 (\<lambda>a b. [a, b])) ?x0s ?x1s" and ?yd = "map (map (\<lambda>b. [b])) ?ys"
  have lxd: "length ?xd = bc * bsize" "length ?yd = bc * bsize"
    using r(2) len ly n by simp_all
  obtain xa where xa: "np_split ?xd bc = Inr xa" "length xa = bc"
    using np_split_ok [OF bc b lxd(1)] by blast
  obtain ya where ya: "np_split ?yd bc = Inr ya" "length ya = bc"
    using np_split_ok [OF bc b lxd(2)] by blast
  have ne: "take (nat (tb - 1)) xa \<noteq> []" "take (nat (tb - 1)) ya \<noteq> []"
    "drop (nat tb) xa \<noteq> []" "drop (nat tb) ya \<noteq> []"
    using tb xa(2) ya(2) bc by auto
  have sl: "py_slice_to zs (tb - 1) = take (nat (tb - 1)) zs" "py_slice_from zs tb = drop (nat tb) zs"
    for zs :: "nat list list list list"
    using tb by (simp_all add: py_slice_to_def py_slice_from_def)
  have bcq': "batch_count_of (bc * bsize) bsize = Inr bc" using bcq n by simp
  show ?thesis
    using valid b n dt y r(1) len ly xa ya ne
    by (simp add: SampleData_init_def split_batches_def Let_def bcq' tb(1) sl print_batch_dims_def)
qed

lemmas float_eval = batch_count_of_def train_batches_of_def float64_def float_exponent_def bit_length.simps
  pow2_def round_half_even_def int_of_float_def Let_def

lemma train_batches_half_16: "train_batches_of (1 / 2) 16 = Inr 8"
  by (simp add: float_eval)

lemma train_batches_half_4: "train_batches_of (1 / 2) 4 = Inr 2"
  by (simp add: float_eval)

lemma batch_count_256_16: "batch_count_of 256 16 = Inr 16"
  by (simp add: float_eval)

lemma batch_count_4_1: "batch_count_of 4 (Suc 0) = Inr 4"
  by (simp add: float_eval)

lemma gen_x_uint8_example:
  "gen_x 4 ''uint8'' (Inr ([200, 2, 3, 4], [100, 254, 0, 0]))"
proof -
  have "gen_x 4 ''uint8'' (Inr (map (astype np_uint8) [200, 2, 3, 4], map (astype np_uint8) [100, 254, 0, 0]))"
    by (rule gen_uint8) (simp_all add: random_choice_def max_uint8_def)
  then show ?thesis by (simp add: astype_def)
qed

text \<open>
  Claim C2. For every pair of operand arrays that \<open>gen_x\<close> can return and every sample
  data object built from it, \<open>y_uint\<close> holds at each index the sum of the two operands modulo
  \<open>2 ^ bitwidth\<close>, wrap-around included; at width 8 the operands 200 and 100 give 44.
\<close>

theorem generator_modular_sum:
  assumes "gen_x n dn (Inr (x0, x1))"
    and "SampleData_init n dn bsize split (Inr (x0, x1)) = Inr sd"
  shows "x0_uint sd = x0 \<and> x1_uint sd = x1 \<and> length x0 = n \<and> length x1 = n
       \<and> length (y_uint sd) = n \<and> bitwidth_of dn = Some (bitwidth sd)
       \<and> (\<forall>i < n. y_uint sd ! i = (x0 ! i + x1 ! i) mod 2 ^ bitwidth sd)
       \<and> calc_y [200] [100] ''uint8'' = Inr [44]"
proof -
  from assms(1) have len: "length x0 = n" "length x1 = n"
    by (auto elim!: gen_x.cases simp: random_choice_def)
  from SampleData_init_fields [OF assms(2)]
  have f: "x0_uint sd = x0" "x1_uint sd = x1" "calc_y x0 x1 dn = Inr (y_uint sd)"
    "bitwidth_of dn = Some (bitwidth sd)" by simp_all
  from calc_y_Inr [OF f(4) f(3)]
  have y: "y_uint sd = map2 (\<lambda>a b. (a + b) mod 2 ^ bitwidth sd) x0 x1" by simp
  have ex: "calc_y [200] [100] ''uint8'' = Inr [44]"
    by (simp add: calc_y_def astype_def)
  from len f y ex show ?thesis by simp
qed

theorem generator_modular_sum_witness:
  "gen_x 4 ''uint8'' (Inr ([200, 2, 3, 4], [100, 254, 0, 0]))
   \<and> (\<exists>sd. SampleData_init 4 ''uint8'' 1 (1 / 2) (Inr ([200, 2, 3, 4], [100, 254, 0, 0])) = Inr sd
          \<and> bitwidth sd = 8 \<and> y_uint sd ! 0 = 44 \<and> y_uint sd ! 1 = 0)"
proof -
  have "\<exists>sd. SampleData_init 4 ''uint8'' 1 (1 / 2) (Inr ([200, 2, 3, 4], [100, 254, 0, 0])) = Inr sd
     \<and> batch_count sd = 4 \<and> length (x_all sd) = 4 \<and> length (y_all sd) = 4
     \<and> x_train sd = take (nat (2 - 1)) (x_all sd) \<and> x_validation sd = drop (nat 2) (x_all sd)
     \<and> y_train sd = take (nat (2 - 1)) (y_all sd) \<and> y_validation sd = drop (nat 2) (y_all sd)"
    by (rule SampleData_init_ok [where w = 8 and npd = np_uint8])
       (simp_all add: bitwidth_of_def np_dtype_of_def train_batches_half_4 batch_count_4_1)
  then obtain sd where
    sd: "SampleData_init 4 ''uint8'' 1 (1 / 2) (Inr ([200, 2, 3, 4], [100, 254, 0, 0])) = Inr sd"
    by blast
  from generator_modular_sum [OF gen_x_uint8_example sd]
  have b: "bitwidth sd = 8"
    and "\<forall>i<4. y_uint sd ! i = ([200, 2, 3, 4] ! i + [100, 254, 0, 0] ! i) mod 2 ^ bitwidth sd"
    by (simp_all add: bitwidth_of_def)
  then have "y_uint sd ! 0 = 44 \<and> y_uint sd ! 1 = 0" by simp
  with sd b gen_x_uint8_example show ?thesis by blast
qed

text \<open>
  Claim C3. What the code does on the notebook's own configuration (256 samples, batches
  of 16, fraction \<open>0.5\<close>, dtype \<open>uint32\<close>), whatever was drawn: there are 16 batches and
  \<open>train_batches\<close> is 8; the training split is the first 7 batches (the slice ends at
  \<open>train_batches - 1\<close>) and the validation split is the last 8, so the batch at index 7
  is in neither split and the training split holds one batch fewer than
  \<open>floor(0.5 * 16) = 8\<close>.
\<close>

theorem notebook_split_drops_a_batch:
  assumes "gen_x samples dtype (Inr (x0, x1))"
  shows "\<exists>sd. SampleData_init samples dtype batch_size train_validation_batches_split
                 (Inr (x0, x1)) = Inr sd
       \<and> batch_count sd = 16 \<and> length (x_all sd) = 16
       \<and> train_batches_of train_validation_batches_split (batch_count sd) = Inr 8
       \<and> x_train sd = take 7 (x_all sd) \<and> x_validation sd = drop 8 (x_all sd)
       \<and> length (x_train sd) = 7 \<and> length (x_validation sd) = 8
       \<and> y_train sd = take 7 (y_all sd) \<and> y_validation sd = drop 8 (y_all sd)"
proof -
  from assms have len: "length x0 = 256" "length x1 = 256"
    by (auto elim!: gen_x.cases simp: random_choice_def samples_def)
  have "\<exists>sd. SampleData_init 256 ''uint32'' 16 (1 / 2) (Inr (x0, x1)) = Inr sd
     \<and> batch_count sd = 16 \<and> length (x_all sd) = 16 \<and> length (y_all sd) = 16
     \<and> x_train sd = take (nat (8 - 1)) (x_all sd) \<and> x_validation sd = drop (nat 8) (x_all sd)
     \<and> y_train sd = take (nat (8 - 1)) (y_all sd) \<and> y_validation sd = drop (nat 8) (y_all sd)"
    using len by (intro SampleData_init_ok [where w = 32 and npd = np_uint32])
      (simp_all add: bitwidth_of_def np_dtype_of_def train_batches_half_16 batch_count_256_16)
  moreover have "train_batches_of train_validation_batches_split 16 = Inr 8"
    by (simp add: train_validation_batches_split_def train_batches_half_16)
  ultimately show ?thesis
    by (auto simp: samples_def dtype_def batch_size_def train_validation_batches_split_def)
qed

theorem notebook_split_drops_a_batch_witness:
  "gen_x samples dtype (Inr (replicate 256 0, replicate 256 0))
   \<and> (\<exists>sd. SampleData_init samples dtype batch_size train_validation_batches_split
                 (Inr (replicate 256 0, replicate 256 0)) = Inr sd
         \<and> length (x_all sd) = 16 \<and> length (x_train sd) = 7 \<and> length (x_validation sd) = 8)"
proof -
  have "gen_x 256 ''uint32'' (Inr (map (astype np_uint32) (replicate 256 0),
                                    map (astype np_uint32) (replicate 256 0)))"
    by (rule gen_uint32) (simp_all add: random_choice_def max_uint32_def list_all_length)
  then have g: "gen_x samples dtype (Inr (replicate 256 0, replicate 256 0))"
    by (simp add: astype_def samples_def dtype_def)
  from notebook_split_drops_a_batch [OF g] g show ?thesis by blast
qed

text \<open>
  Claim C5. What the code does: every operand \<open>gen_x\<close> returns is strictly below
  \<open>max_val = 2 ^ width - 1\<close>, and every value strictly below \<open>max_val\<close> can be drawn (for a
  positive sample count). So no value outside \<open>[0, max_val]\<close> is drawn, but \<open>max_val\<close>
  itself never is.
\<close>

theorem gen_x_never_draws_max_val:
  assumes "max_val_of dn = Some mv"
  shows "(\<forall>x0 x1. gen_x n dn (Inr (x0, x1)) \<longrightarrow> (\<forall>v \<in> set x0 \<union> set x1. v < mv))
       \<and> (\<forall>v < mv. 0 < n \<longrightarrow> (\<exists>x0 x1. gen_x n dn (Inr (x0, x1)) \<and> v \<in> set x0 \<and> v \<in> set x1))"
proof (intro conjI allI impI)
  fix x0 x1 assume "gen_x n dn (Inr (x0, x1))"
  then show "\<forall>v \<in> set x0 \<union> set x1. v < mv"
    using assms
    by (cases rule: gen_x.cases)
       (auto simp: random_choice_def list_all_iff astype_def max_val_of_def
                   max_uint8_def max_uint16_def max_uint32_def)
next
  fix v assume v: "v < mv" and n: "0 < n"
  let ?c = "replicate n v"
  have mem: "v \<in> set ?c" using n by simp
  from assms consider "dn = ''uint8''" "mv = max_uint8" | "dn = ''uint16''" "mv = max_uint16"
    | "dn = ''uint32''" "mv = max_uint32"
    by (auto simp: max_val_of_def max_uint8_def max_uint16_def max_uint32_def split: if_splits)
  then show "\<exists>x0 x1. gen_x n dn (Inr (x0, x1)) \<and> v \<in> set x0 \<and> v \<in> set x1"
  proof cases
    case 1
    then have rc: "random_choice max_uint8 n ?c" using v by (simp add: random_choice_def list_all_length)
    have "astype np_uint8 v = v" using v 1 by (simp add: astype_def max_uint8_def)
    with gen_uint8 [OF rc rc] 1 have "gen_x n dn (Inr (?c, ?c))" by simp
    with mem show ?thesis by blast
  next
    case 2
    then have rc: "random_choice max_uint16 n ?c" using v by (simp add: random_choice_def list_all_length)
    have "astype np_uint16 v = v" using v 2 by (simp add: astype_def max_uint16_def)
    with gen_uint16 [OF rc rc] 2 have "gen_x n dn (Inr (?c, ?c))" by simp
    with mem show ?thesis by blast
  next
    case 3
    then have rc: "random_choice max_uint32 n ?c" using v by (simp add: random_choice_def list_all_length)
    have "astype np_uint32 v = v" using v 3 by (simp add: astype_def max_uint32_def)
    with gen_uint32 [OF rc rc] 3 have "gen_x n dn (Inr (?c, ?c))" by simp
    with mem show ?thesis by blast
  qed
qed

theorem gen_x_never_draws_max_val_witness:
  "max_val_of ''uint8'' = Some 255
   \<and> gen_x 4 ''uint8'' (Inr ([200, 2, 3, 4], [100, 254, 0, 0]))
   \<and> 255 \<notin> set [200, 2, 3, 4 :: nat] \<union> set [100, 254, 0, 0]
   \<and> (254 :: nat) < 255 \<and> (0 :: nat) < 4
   \<and> (\<exists>x0 x1. gen_x 4 ''uint8'' (Inr (x0, x1)) \<and> 254 \<in> set x0 \<and> 254 \<in> set x1)
   \<and> \<not> (\<exists>x0 x1. gen_x 4 ''uint8'' (Inr (x0, x1)) \<and> 255 \<in> set x0 \<union> set x1)"
proof -
  have m: "max_val_of ''uint8'' = Some 255" by (simp add: max_val_of_def)
  from gen_x_never_draws_max_val [OF m, of 4] gen_x_uint8_example m
  show ?thesis by (simp (no_asm_simp)) blast
qed

section \<open>Recurrent cell: the manual unroll\<close>

lemma unroll_Cons_fst:
  "fst (unroll ops W (x # xs) h0) =
     tf_relu ops (tf_add ops (tf_add ops (tf_matmul ops x (w_i_h W)) (b_h W)) (tf_matmul ops h0 (w_h_h W)))
     # fst (unroll ops W xs
         (tf_relu ops (tf_add ops (tf_add ops (tf_matmul ops x (w_i_h W)) (b_h W)) (tf_matmul ops h0 (w_h_h W)))))"
  by (simp add: Let_def case_prod_beta)

lemma unroll_hidden:
  "t < length xs \<Longrightarrow>
   fst (unroll ops W xs h0) ! t =
     tf_relu ops (tf_add ops (tf_add ops (tf_matmul ops (xs ! t) (w_i_h W)) (b_h W))
       (tf_matmul ops (if t = 0 then h0 else fst (unroll ops W xs h0) ! (t - 1)) (w_h_h W)))"
proof (induction xs arbitrary: h0 t)
  case Nil then show ?case by simp
next
  case (Cons x xs)
  let ?h1 = "tf_relu ops (tf_add ops (tf_add ops (tf_matmul ops x (w_i_h W)) (b_h W)) (tf_matmul ops h0 (w_h_h W)))"
  show ?case
  proof (cases t)
    case 0 then show ?thesis by (simp add: unroll_Cons_fst del: unroll.simps)
  next
    case (Suc k)
    with Cons.prems have k: "k < length xs" by simp
    have prev: "(if k = 0 then ?h1 else fst (unroll ops W xs ?h1) ! (k - 1))
                = fst (unroll ops W (x # xs) h0) ! k"
      by (cases k) (simp_all add: unroll_Cons_fst del: unroll.simps)
    from Cons.IH [OF k, of ?h1] prev Suc show ?thesis
      by (simp add: unroll_Cons_fst del: unroll.simps)
  qed
qed

lemma unroll_logits:
  "snd (unroll ops W xs h0) = map (\<lambda>h. tf_add ops (tf_matmul ops h (w_h_o W)) (b_o W)) (fst (unroll ops W xs h0))"
  by (induction xs arbitrary: h0) (simp_all add: Let_def case_prod_beta)

section \<open>Recurrent cell: the two branches\<close>




section \<open>Interactive calculator: properties\<close>

lemma str_contains_sublist: "str_contains t s \<longleftrightarrow> sublist s t"
  by (induction t) (simp_all add: sublist_Cons_right)

lemma str_contains_Yy:
  "str_contains ''Yy'' s \<longleftrightarrow> s \<in> {'''', ''Y'', ''y'', ''Yy''}"
proof (cases s)
  case Nil then show ?thesis by simp
next
  case (Cons a s1)
  show ?thesis
  proof (cases s1)
    case Nil with Cons show ?thesis by (auto simp: prefix_Cons)
  next
    case (Cons b s2)
    with \<open>s = a # s1\<close> show ?thesis by (cases s2) (auto simp: prefix_Cons)
  qed
qed

lemma max_val_valid: "max_val_of dn = Some mv \<Longrightarrow> dn \<in> valid_dtypes"
  by (auto simp: max_val_of_def valid_dtypes_def split: if_splits)

lemma run_init:
  "max_val_of dn = Some mv \<Longrightarrow> np_dtype_of dn = Some npd \<Longrightarrow>
   run ops (RNNCalc_init dn rn) replies = run_loop ops rn mv dn npd replies"
  by (simp add: run_def RNNCalc_init_def max_val_valid)

lemma check_input_events:
  "fst (check_input mv p r) = [Prompt p] \<or> (\<exists>s \<in> {''Not an integer!'', ''Input must not be less than 0'',
        ''Input must not be greater than '' @ show_nat mv}. fst (check_input mv p r) = [Prompt p, Print s])"
  by (simp add: check_input_def split: option.split)

lemma check_input_rejected:
  assumes "py_int r = None \<or> (\<exists>v. py_int r = Some v \<and> (v < 0 \<or> int mv < v))"
  shows "snd (check_input mv p r) = None"
    and "\<exists>s \<in> {''Not an integer!'', ''Input must not be less than 0'',
        ''Input must not be greater than '' @ show_nat mv}. fst (check_input mv p r) = [Prompt p, Print s]"
  using assms by (auto simp: check_input_def split: option.split)

lemma check_input_accepted:
  "py_int r = Some (int v) \<Longrightarrow> v \<le> mv \<Longrightarrow> check_input mv p r = ([Prompt p], Some v)"
  by (simp add: check_input_def)

lemma round_body_rejected:
  assumes "snd (check_input mv (prompt_x0 mv) r0) = None \<or> snd (check_input mv (prompt_x1 mv) r1) = None"
  shows "round_body ops rn mv dn npd r0 r1 =
         (fst (check_input mv (prompt_x0 mv) r0) @ fst (check_input mv (prompt_x1 mv) r1), Inr ())"
  using assms by (auto simp: round_body_def split: prod.split option.split)

lemma run_loop_continue:
  assumes "round_body ops rn mv dn npd r0 r1 = (ev, Inr u)"
  shows "run_loop ops rn mv dn npd (r0 # r1 # reply # replies) =
           (if reply \<in> {'''', ''Y'', ''y'', ''Yy''}
            then (ev @ [Prompt prompt_new] @ fst (run_loop ops rn mv dn npd replies),
                  snd (run_loop ops rn mv dn npd replies))
            else (ev @ [Prompt prompt_new], Finished))"
  using assms by (simp del: str_contains.simps add: str_contains_Yy case_prod_beta)

lemma unroll_length:
  "length (fst (unroll ops W xs h)) = length xs \<and> length (snd (unroll ops W xs h)) = length xs"
  by (induction xs arbitrary: h) (simp_all add: Let_def case_prod_beta)

lemma manual_predictions_length:
  "length (predictions_series (RnnCell_init ops W dyn bw False) xs h) = length xs"
  by (simp add: RnnCell_init_def unroll_length)

lemma length_arr2inbits_single: "length (arr2inbits npd [v]) = 8 * itemsize npd"
  by (cases npd) (simp_all add: arr2inbits_def unpackbits_def bytes_be_def unpackbits_byte_def upt_conv_Cons)

lemma calculation_error:
  assumes wf: "\<And>xs h. length (predictions_series rn xs h) = length xs"
    and w: "8 * itemsize npd \<noteq> 32"
  shows "snd (calculation ops rn dn npd x0 x1) = Inl ValueError"
  using w by (auto simp: calculation_def Let_def wf length_arr2inbits_single)

lemma calculation_ok:
  assumes wf: "\<And>xs h. length (predictions_series rn xs h) = length xs"
    and bw: "x_bitwidth rn = 32"
  shows "\<exists>ev. calculation ops rn ''uint32'' np_uint32 x0 x1 = (ev, Inr ())"
proof -
  let ?pc = "map (astype np_uint32) (map (np_around ops)
      (predictions_series rn (map (\<lambda>row. feed ops [row])
         (map2 (\<lambda>a b. [a, b]) (arr2inbits np_uint32 [astype np_uint32 x0])
                                (arr2inbits np_uint32 [astype np_uint32 x1])))
       (np_zeros ops 1 hidden_neurons)))"
  have len: "length ?pc = 32" by (simp add: wf length_arr2inbits_single)
  have "bitwidth_of ''uint32'' = Some 32" by (simp add: bitwidth_of_def)
  then have "bits2arr ?pc ''uint32'' = Inr [val_msb (rev ?pc)]"
    using len by (rule bits2arr_width)
  then show ?thesis
    using len bw by (simp add: calculation_def Let_def wf length_arr2inbits_single)
qed

lemma calculation_zero_state:
  "calculation ops rn dn npd x0 x1 =
   calculation ops (rn\<lparr>predictions_series :=
       (\<lambda>x_series initial_state. predictions_series rn x_series (np_zeros ops 1 hidden_neurons))\<rparr>) dn npd x0 x1"
  by (simp add: calculation_def Let_def)

lemma calculation_uint32:
  assumes wf: "\<And>xs h. length (predictions_series rn xs h) = length xs"
    and bw: "x_bitwidth rn = 32"
  shows "\<exists>y bits. y < 2 ^ 32 \<and> length bits = 32 \<and>
     calculation ops rn ''uint32'' np_uint32 x0 x1 =
       ([Print (''x0 int val: '' @ show_nat x0),
         Print (''x0 bin val: '' @ array_str (arr2inbits np_uint32 [astype np_uint32 x0])),
         Print (''x0 int val: '' @ show_nat x1),
         Print (''x0 bin val: '' @ array_str (arr2inbits np_uint32 [astype np_uint32 x1])),
         Run_session,
         Print (''y  int val: '' @ show_nat y @ '' and correct answer is '' @ show_nat (x0 + x1)),
         Print (''y  bin val: '' @ array_str bits)], Inr ())"
proof -
  let ?pc = "map (astype np_uint32) (map (np_around ops)
      (predictions_series rn (map (\<lambda>row. feed ops [row])
         (map2 (\<lambda>a b. [a, b]) (arr2inbits np_uint32 [astype np_uint32 x0])
                                (arr2inbits np_uint32 [astype np_uint32 x1])))
       (np_zeros ops 1 hidden_neurons)))"
  have len: "length ?pc = 32" by (simp add: wf length_arr2inbits_single)
  have "bitwidth_of ''uint32'' = Some 32" by (simp add: bitwidth_of_def)
  then have b: "bits2arr ?pc ''uint32'' = Inr [val_msb (rev ?pc)]"
    using len by (rule bits2arr_width)
  have "val_msb (rev ?pc) < 2 ^ length (rev ?pc)" by (rule val_msb_less)
  then have lt: "val_msb (rev ?pc) < 2 ^ 32" using len by simp
  have "calculation ops rn ''uint32'' np_uint32 x0 x1 =
       ([Print (''x0 int val: '' @ show_nat x0),
         Print (''x0 bin val: '' @ array_str (arr2inbits np_uint32 [astype np_uint32 x0])),
         Print (''x0 int val: '' @ show_nat x1),
         Print (''x0 bin val: '' @ array_str (arr2inbits np_uint32 [astype np_uint32 x1])),
         Run_session,
         Print (''y  int val: '' @ show_nat (val_msb (rev ?pc)) @ '' and correct answer is '' @ show_nat (x0 + x1)),
         Print (''y  bin val: '' @ array_str ?pc)], Inr ())"
    using len bw b by (simp add: calculation_def Let_def wf length_arr2inbits_single)
  with lt len show ?thesis by blast
qed

lemmas text_eval = py_int_def strip_def is_space_def digit_of_def show_nat.simps digit_char_def
  prompt_x0_def prompt_x1_def prompt_new_def

text \<open>
  Claim C6. In the manual unroll, for every input sequence and every step \<open>t\<close>, the hidden
  state is the rectifier applied to the sum of the input term \<open>x[t] W_ih\<close>, the bias \<open>b_h\<close>
  and the recurrent term \<open>h[t-1] W_hh\<close> (added in this order, as the code adds them; in
  the order input term, recurrent term, bias when the addition is commutative and
  associative), where \<open>h[-1]\<close> is the value fed for \<open>initial_state\<close>; the step's logit is
  \<open>h[t] W_ho + b_o\<close> and its prediction the sigmoid of the logit. The calculator
  evaluates the series with \<open>np.zeros([1, hidden_neurons])\<close> fed as the initial state.
\<close>

theorem manual_unroll_recurrence:
  assumes "t < length x_series"
  shows "length (fst (unroll ops W x_series initial_state)) = length x_series
       \<and> length (snd (unroll ops W x_series initial_state)) = length x_series
       \<and> fst (unroll ops W x_series initial_state) ! t =
           tf_relu ops (tf_add ops (tf_add ops (tf_matmul ops (x_series ! t) (w_i_h W)) (b_h W))
             (tf_matmul ops (if t = 0 then initial_state
                             else fst (unroll ops W x_series initial_state) ! (t - 1)) (w_h_h W)))
       \<and> ((\<forall>a b. tf_add ops a b = tf_add ops b a)
            \<and> (\<forall>a b c. tf_add ops (tf_add ops a b) c = tf_add ops a (tf_add ops b c)) \<longrightarrow>
          fst (unroll ops W x_series initial_state) ! t =
           tf_relu ops (tf_add ops (tf_add ops (tf_matmul ops (x_series ! t) (w_i_h W))
             (tf_matmul ops (if t = 0 then initial_state
                             else fst (unroll ops W x_series initial_state) ! (t - 1)) (w_h_h W)))
             (b_h W)))
       \<and> snd (unroll ops W x_series initial_state) ! t =
           tf_add ops (tf_matmul ops (fst (unroll ops W x_series initial_state) ! t) (w_h_o W)) (b_o W)
       \<and> predictions_series (RnnCell_init ops W dyn bw False) x_series initial_state ! t =
           tf_sigmoid ops (snd (unroll ops W x_series initial_state) ! t)
       \<and> calculation ops (RnnCell_init ops W dyn bw False) dn npd x0 x1 =
           calculation ops ((RnnCell_init ops W dyn bw False)\<lparr>predictions_series :=
             (\<lambda>xs h. map (tf_sigmoid ops) (snd (unroll ops W xs (np_zeros ops 1 hidden_neurons))))\<rparr>)
             dn npd x0 x1"
proof -
  have l: "length (fst (unroll ops W x_series initial_state)) = length x_series"
    "length (snd (unroll ops W x_series initial_state)) = length x_series"
    using unroll_length [of ops W x_series initial_state] by simp_all
  have lg: "snd (unroll ops W x_series initial_state) ! t =
      tf_add ops (tf_matmul ops (fst (unroll ops W x_series initial_state) ! t) (w_h_o W)) (b_o W)"
    using assms l by (simp add: unroll_logits)
  have p: "predictions_series (RnnCell_init ops W dyn bw False) x_series initial_state ! t =
           tf_sigmoid ops (snd (unroll ops W x_series initial_state) ! t)"
    using assms l by (simp add: RnnCell_init_def)
  have c: "calculation ops (RnnCell_init ops W dyn bw False) dn npd x0 x1 =
           calculation ops ((RnnCell_init ops W dyn bw False)\<lparr>predictions_series :=
             (\<lambda>xs h. map (tf_sigmoid ops) (snd (unroll ops W xs (np_zeros ops 1 hidden_neurons))))\<rparr>)
             dn npd x0 x1"
    by (subst calculation_zero_state) (simp add: RnnCell_init_def)
  have ac: "tf_add ops (tf_add ops a b) c = tf_add ops (tf_add ops a c) b"
    if "\<forall>a b. tf_add ops a b = tf_add ops b a"
      and "\<forall>a b c. tf_add ops (tf_add ops a b) c = tf_add ops a (tf_add ops b c)" for a b c
    using that by metis
  have h: "fst (unroll ops W x_series initial_state) ! t =
           tf_relu ops (tf_add ops (tf_add ops (tf_matmul ops (x_series ! t) (w_i_h W)) (b_h W))
             (tf_matmul ops (if t = 0 then initial_state
                             else fst (unroll ops W x_series initial_state) ! (t - 1)) (w_h_h W)))"
    by (rule unroll_hidden [OF assms])
  have h': "(\<forall>a b. tf_add ops a b = tf_add ops b a)
            \<and> (\<forall>a b c. tf_add ops (tf_add ops a b) c = tf_add ops a (tf_add ops b c)) \<longrightarrow>
          fst (unroll ops W x_series initial_state) ! t =
           tf_relu ops (tf_add ops (tf_add ops (tf_matmul ops (x_series ! t) (w_i_h W))
             (tf_matmul ops (if t = 0 then initial_state
                             else fst (unroll ops W x_series initial_state) ! (t - 1)) (w_h_h W)))
             (b_h W))"
  proof (intro impI, elim conjE)
    assume c: "\<forall>a b. tf_add ops a b = tf_add ops b a"
      and a: "\<forall>a b c. tf_add ops (tf_add ops a b) c = tf_add ops a (tf_add ops b c)"
    show "fst (unroll ops W x_series initial_state) ! t =
           tf_relu ops (tf_add ops (tf_add ops (tf_matmul ops (x_series ! t) (w_i_h W))
             (tf_matmul ops (if t = 0 then initial_state
                             else fst (unroll ops W x_series initial_state) ! (t - 1)) (w_h_h W)))
             (b_h W))"
      by (subst h) (simp only: ac [OF c a])
  qed
  from l h h' lg p c show ?thesis by blast
qed

theorem manual_unroll_recurrence_witness:
  "(1 :: nat) < length [3, - 5 :: int]
   \<and> (\<forall>a b. tf_add example_ops a b = tf_add example_ops b a)
   \<and> (\<forall>a b c. tf_add example_ops (tf_add example_ops a b) c
                = tf_add example_ops a (tf_add example_ops b c))
   \<and> fst (unroll example_ops example_weights [3, - 5] 7) = [3, 0]
   \<and> snd (unroll example_ops example_weights [3, - 5] 7) = [3, 0]
   \<and> fst (unroll example_ops example_weights [3, - 5] 7) ! 1 =
       tf_relu example_ops (tf_add example_ops
         (tf_add example_ops (tf_matmul example_ops (- 5) (w_i_h example_weights)) (b_h example_weights))
         (tf_matmul example_ops (fst (unroll example_ops example_weights [3, - 5] 7) ! 0)
            (w_h_h example_weights)))
   \<and> predictions_series (example_rnn 2) [3, - 5] 7 ! 1 = 0"
proof -
  have t: "(1 :: nat) < length [3, - 5 :: int]" by simp
  have u: "unroll example_ops example_weights [3, - 5] 7 = ([3, 0], [3, 0])"
    by (simp add: example_ops_def example_weights_def)
  from manual_unroll_recurrence [OF t, of example_ops example_weights 7 "\<lambda>x h. x" 2] t u
  show ?thesis by (simp add: example_rnn_def example_ops_def)
qed

text \<open>
  Claim C7. What the code does at dtype \<open>uint32\<close> on the in-range inputs 4294967295 and 1:
  the calculator prints \<open>correct answer is 4294967296\<close>, the sum \<open>x0 + x1\<close> of the two
  Python integers without reduction, next to a predicted value that is below \<open>2 ^ 32\<close>; the
  sample generator's \<open>y\<close> for the same operands is 0.
\<close>

theorem calculator_shows_unwrapped_sum:
  "\<exists>y bits. y < 2 ^ 32 \<and> length bits = 32 \<and>
     run example_ops (RNNCalc_init ''uint32'' (example_rnn 32)) [''4294967295'', ''1'', ''n''] =
       ([Prompt ''Please input x0 in range 0 to 4294967295'',
         Prompt ''Please input x1 in range 0 to 4294967295'',
         Print ''x0 int val: 4294967295'',
         Print (''x0 bin val: '' @ array_str (arr2inbits np_uint32 [4294967295])),
         Print ''x0 int val: 1'',
         Print (''x0 bin val: '' @ array_str (arr2inbits np_uint32 [1])),
         Run_session,
         Print (''y  int val: '' @ show_nat y @ '' and correct answer is 4294967296''),
         Print (''y  bin val: '' @ array_str bits),
         Prompt ''Do you wish to perform a new calculation? (y/N)''], Finished)
   \<and> calc_y [4294967295] [1] ''uint32'' = Inr [0]"
proof -
  have m: "max_val_of ''uint32'' = Some 4294967295" by (simp add: max_val_of_def)
  have d: "np_dtype_of ''uint32'' = Some np_uint32" by (simp add: np_dtype_of_def)
  have c0: "check_input 4294967295 p ''4294967295'' = ([Prompt p], Some 4294967295)" for p
    by (rule check_input_accepted) (simp_all add: text_eval)
  have c1: "check_input 4294967295 p ''1'' = ([Prompt p], Some 1)" for p
    by (rule check_input_accepted) (simp_all add: text_eval)
  have wf: "\<And>xs h. length (predictions_series (example_rnn 32) xs h) = length xs"
    by (simp add: example_rnn_def manual_predictions_length)
  have bw: "x_bitwidth (example_rnn 32) = 32" by (simp add: example_rnn_def RnnCell_init_def)
  from calculation_uint32 [OF wf bw, of example_ops 4294967295 1]
  obtain y bits where yb: "y < 2 ^ 32" "length bits = 32"
    and c: "calculation example_ops (example_rnn 32) ''uint32'' np_uint32 4294967295 1 =
       ([Print (''x0 int val: '' @ show_nat 4294967295),
         Print (''x0 bin val: '' @ array_str (arr2inbits np_uint32 [astype np_uint32 4294967295])),
         Print (''x0 int val: '' @ show_nat 1),
         Print (''x0 bin val: '' @ array_str (arr2inbits np_uint32 [astype np_uint32 1])),
         Run_session,
         Print (''y  int val: '' @ show_nat y @ '' and correct answer is '' @ show_nat (4294967295 + 1)),
         Print (''y  bin val: '' @ array_str bits)], Inr ())"
    by blast
  have s: "show_nat 4294967295 = ''4294967295''" "show_nat 1 = ''1''"
    "show_nat 4294967296 = ''4294967296''"
    by (simp_all add: show_nat.simps digit_char_def)
  have a: "astype np_uint32 4294967295 = 4294967295" "astype np_uint32 1 = 1"
    by (simp_all add: astype_def)
  have r: "run example_ops (RNNCalc_init ''uint32'' (example_rnn 32)) [''4294967295'', ''1'', ''n''] =
       ([Prompt ''Please input x0 in range 0 to 4294967295'',
         Prompt ''Please input x1 in range 0 to 4294967295'',
         Print ''x0 int val: 4294967295'',
         Print (''x0 bin val: '' @ array_str (arr2inbits np_uint32 [4294967295])),
         Print ''x0 int val: 1'',
         Print (''x0 bin val: '' @ array_str (arr2inbits np_uint32 [1])),
         Run_session,
         Print (''y  int val: '' @ show_nat y @ '' and correct answer is 4294967296''),
         Print (''y  bin val: '' @ array_str bits),
         Prompt ''Do you wish to perform a new calculation? (y/N)''], Finished)"
    unfolding run_init [OF m d]
    by (simp add: round_body_def c0 c1 c s a prompt_x0_def prompt_x1_def prompt_new_def
             del: One_nat_def)
  have y: "calc_y [4294967295] [1] ''uint32'' = Inr [0]"
    by (simp add: calc_y_def astype_def)
  from yb r y show ?thesis by blast
qed

text \<open>
  Claim C8. When the reply to either operand prompt (an ASCII string) is not an integer,
  is negative or is greater than \<open>max_val\<close>, the round consists of the two operand prompts and the messages
  of \<open>_check_input\<close> only: at least one message is printed, every printed line is one of
  the three messages, the session is not run and no prediction is printed; no exception
  is raised, the continuation prompt follows, and the loop goes on or ends by the reply to
  it (with no reply left, \<open>input\<close> raises \<open>EOFError\<close>).
\<close>

theorem invalid_input_abandons_round:
  assumes "max_val_of dn = Some mv" and "np_dtype_of dn = Some npd"
    and "(py_int r0 = None \<or> (\<exists>v. py_int r0 = Some v \<and> (v < 0 \<or> int mv < v)))
       \<or> (py_int r1 = None \<or> (\<exists>v. py_int r1 = Some v \<and> (v < 0 \<or> int mv < v)))"
    and "is_ascii r0" and "is_ascii r1"
  shows "\<exists>ev. round_body ops rn mv dn npd r0 r1 = (ev, Inr ())
       \<and> ev = fst (check_input mv (prompt_x0 mv) r0) @ fst (check_input mv (prompt_x1 mv) r1)
       \<and> Run_session \<notin> set ev
       \<and> (\<exists>s. Print s \<in> set ev)
       \<and> (\<forall>s. Print s \<in> set ev \<longrightarrow>
              s \<in> {''Not an integer!'', ''Input must not be less than 0'',
                   ''Input must not be greater than '' @ show_nat mv})
       \<and> run ops (RNNCalc_init dn rn) [r0, r1] = (ev @ [Prompt prompt_new], Raised EOFError)
       \<and> run ops (RNNCalc_init dn rn) (r0 # r1 # reply # replies) =
           (if reply \<in> {'''', ''Y'', ''y'', ''Yy''}
            then (ev @ [Prompt prompt_new] @ fst (run ops (RNNCalc_init dn rn) replies),
                  snd (run ops (RNNCalc_init dn rn) replies))
            else (ev @ [Prompt prompt_new], Finished))"
proof -
  let ?e0 = "fst (check_input mv (prompt_x0 mv) r0)" and ?e1 = "fst (check_input mv (prompt_x1 mv) r1)"
  let ?ev = "?e0 @ ?e1"
  let ?M = "{''Not an integer!'', ''Input must not be less than 0'',
             ''Input must not be greater than '' @ show_nat mv}"
  from assms(3) have none: "snd (check_input mv (prompt_x0 mv) r0) = None
                          \<or> snd (check_input mv (prompt_x1 mv) r1) = None"
    using check_input_rejected(1) [where r = r0 and mv = mv and p = "prompt_x0 mv"]
      check_input_rejected(1) [where r = r1 and mv = mv and p = "prompt_x1 mv"] by argo
  then have rb: "round_body ops rn mv dn npd r0 r1 = (?ev, Inr ())"
    by (rule round_body_rejected)
  have shape: "e = [Prompt p] \<or> (\<exists>s\<in>?M. e = [Prompt p, Print s])"
    if "e = fst (check_input mv p r)" for e p r
    using check_input_events [of mv p r] that by simp
  have s0: "?e0 = [Prompt (prompt_x0 mv)] \<or> (\<exists>s\<in>?M. ?e0 = [Prompt (prompt_x0 mv), Print s])"
    by (rule shape) simp
  have s1: "?e1 = [Prompt (prompt_x1 mv)] \<or> (\<exists>s\<in>?M. ?e1 = [Prompt (prompt_x1 mv), Print s])"
    by (rule shape) simp
  have norun: "Run_session \<notin> set ?ev" using s0 s1 by auto
  have only: "\<forall>s. Print s \<in> set ?ev \<longrightarrow> s \<in> ?M" using s0 s1 by auto
  have some: "\<exists>s. Print s \<in> set ?ev"
  proof -
    from assms(3) consider
      "py_int r0 = None \<or> (\<exists>v. py_int r0 = Some v \<and> (v < 0 \<or> int mv < v))"
      | "py_int r1 = None \<or> (\<exists>v. py_int r1 = Some v \<and> (v < 0 \<or> int mv < v))" by blast
    then show ?thesis
    proof cases
      case 1
      from check_input_rejected(2) [OF 1, of "prompt_x0 mv"] show ?thesis by auto
    next
      case 2
      from check_input_rejected(2) [OF 2, of "prompt_x1 mv"] show ?thesis by auto
    qed
  qed
  have two: "run ops (RNNCalc_init dn rn) [r0, r1] = (?ev @ [Prompt prompt_new], Raised EOFError)"
    by (simp add: run_init [OF assms(1,2)] rb)
  have more: "run ops (RNNCalc_init dn rn) (r0 # r1 # reply # replies) =
           (if reply \<in> {'''', ''Y'', ''y'', ''Yy''}
            then (?ev @ [Prompt prompt_new] @ fst (run ops (RNNCalc_init dn rn) replies),
                  snd (run ops (RNNCalc_init dn rn) replies))
            else (?ev @ [Prompt prompt_new], Finished))"
    using run_loop_continue [OF rb] by (simp only: run_init [OF assms(1,2)])
  from rb norun only some two more show ?thesis by blast
qed

theorem invalid_input_abandons_round_witness:
  "max_val_of ''uint8'' = Some 255 \<and> np_dtype_of ''uint8'' = Some np_uint8
   \<and> is_ascii ''-5'' \<and> is_ascii ''300''
   \<and> py_int ''-5'' = Some (- 5) \<and> (- 5 :: int) < 0
   \<and> py_int ''300'' = Some 300 \<and> int 255 < 300
   \<and> run example_ops (RNNCalc_init ''uint8'' (example_rnn 8)) [''-5'', ''300'', ''n''] =
       ([Prompt ''Please input x0 in range 0 to 255'', Print ''Input must not be less than 0'',
         Prompt ''Please input x1 in range 0 to 255'',
         Print ''Input must not be greater than 255'',
         Prompt ''Do you wish to perform a new calculation? (y/N)''], Finished)"
proof -
  have m: "max_val_of ''uint8'' = Some 255" by (simp add: max_val_of_def)
  have d: "np_dtype_of ''uint8'' = Some np_uint8" by (simp add: np_dtype_of_def)
  have p0: "py_int ''-5'' = Some (- 5)" by (simp add: text_eval)
  have p1: "py_int ''300'' = Some 300" by (simp add: text_eval)
  have h: "(py_int ''-5'' = None \<or> (\<exists>v. py_int ''-5'' = Some v \<and> (v < 0 \<or> int 255 < v)))
       \<or> (py_int ''300'' = None \<or> (\<exists>v. py_int ''300'' = Some v \<and> (v < 0 \<or> int 255 < v)))"
    using p0 by simp
  have a: "is_ascii ''-5''" "is_ascii ''300''" by (simp_all add: is_ascii_def)
  from invalid_input_abandons_round [OF m d h a, of example_ops "example_rnn 8" "''n''" "[]"]
  show ?thesis using m d p0 p1 a
    by (simp add: check_input_def text_eval)
qed

text \<open>
  Claim C9. \<open>RNNCalc.run\<close> reshapes the rounded predictions to length 32 whatever the
  dtype. With a model that emits one prediction per step of a sequence of the dtype's
  width, and two accepted operands (ASCII replies that \<open>int\<close> parses to values in
  \<open>[0, max_val]\<close>), a round completes without an exception exactly when
  the width is 32; at widths 8 and 16 the session is run, then \<open>ValueError\<close> is raised and
  ends the run.
\<close>

theorem reshape_needs_width_32:
  assumes "max_val_of dn = Some mv" and "np_dtype_of dn = Some npd" and "bitwidth_of dn = Some w"
    and wf: "\<And>xs h. length (predictions_series rn xs h) = length xs"
    and bw: "x_bitwidth rn = w"
    and "py_int r0 = Some (int x0)" and "x0 \<le> mv" and "py_int r1 = Some (int x1)" and "x1 \<le> mv"
    and "is_ascii r0" and "is_ascii r1"
  shows "((\<exists>ev. round_body ops rn mv dn npd r0 r1 = (ev, Inr ())) \<longleftrightarrow> w = 32)
       \<and> (w \<noteq> 32 \<longrightarrow>
            (\<exists>ev. calculation ops rn dn npd x0 x1 = (ev @ [Run_session], Inl ValueError))
            \<and> snd (run ops (RNNCalc_init dn rn) (r0 # r1 # replies)) = Raised ValueError)"
proof -
  have c0: "check_input mv (prompt_x0 mv) r0 = ([Prompt (prompt_x0 mv)], Some x0)"
    using assms(6,7) by (rule check_input_accepted)
  have c1: "check_input mv (prompt_x1 mv) r1 = ([Prompt (prompt_x1 mv)], Some x1)"
    using assms(8,9) by (rule check_input_accepted)
  have rb: "round_body ops rn mv dn npd r0 r1 =
        ([Prompt (prompt_x0 mv), Prompt (prompt_x1 mv)] @ fst (calculation ops rn dn npd x0 x1),
         snd (calculation ops rn dn npd x0 x1))"
    by (simp add: round_body_def c0 c1 case_prod_beta)
  have w8: "w = 8 * itemsize npd" using assms(2,3) by (rule dtype_width)
  show ?thesis
  proof (cases "w = 32")
    case True
    then have "dn = ''uint32''" "npd = np_uint32"
      using assms(2,3) by (auto simp: bitwidth_of_def np_dtype_of_def split: if_splits)
    moreover have "\<exists>ev. calculation ops rn ''uint32'' np_uint32 x0 x1 = (ev, Inr ())"
      using wf bw True by (intro calculation_ok) simp_all
    ultimately show ?thesis using True rb by auto
  next
    case False
    then have ne: "8 * itemsize npd \<noteq> 32" using w8 by simp
    have err: "snd (calculation ops rn dn npd x0 x1) = Inl ValueError"
      using wf ne by (rule calculation_error)
    have ev: "\<exists>ev. calculation ops rn dn npd x0 x1 = (ev @ [Run_session], Inl ValueError)"
      using ne bw w8 by (simp add: calculation_def Let_def wf length_arr2inbits_single)
    have "snd (run ops (RNNCalc_init dn rn) (r0 # r1 # replies)) = Raised ValueError"
      by (cases replies) (simp_all add: run_init [OF assms(1,2)] rb err)
    with False rb err ev show ?thesis by simp
  qed
qed

theorem reshape_needs_width_32_witness:
  "max_val_of ''uint8'' = Some 255 \<and> np_dtype_of ''uint8'' = Some np_uint8
   \<and> bitwidth_of ''uint8'' = Some 8
   \<and> (\<forall>xs h. length (predictions_series (example_rnn 8) xs h) = length xs)
   \<and> x_bitwidth (example_rnn 8) = 8
   \<and> is_ascii ''200'' \<and> is_ascii ''100''
   \<and> py_int ''200'' = Some (int 200) \<and> (200 :: nat) \<le> 255
   \<and> py_int ''100'' = Some (int 100) \<and> (100 :: nat) \<le> 255
   \<and> (8 :: nat) \<noteq> 32
   \<and> \<not> (\<exists>ev. round_body example_ops (example_rnn 8) 255 ''uint8'' np_uint8 ''200'' ''100'' = (ev, Inr ()))
   \<and> (\<exists>ev. calculation example_ops (example_rnn 8) ''uint8'' np_uint8 200 100
              = (ev @ [Run_session], Inl ValueError))
   \<and> snd (run example_ops (RNNCalc_init ''uint8'' (example_rnn 8)) [''200'', ''100'', ''y''])
       = Raised ValueError"
proof -
  have m: "max_val_of ''uint8'' = Some 255" by (simp add: max_val_of_def)
  have d: "np_dtype_of ''uint8'' = Some np_uint8" by (simp add: np_dtype_of_def)
  have w: "bitwidth_of ''uint8'' = Some 8" by (simp add: bitwidth_of_def)
  have wf: "\<And>xs h. length (predictions_series (example_rnn 8) xs h) = length xs"
    by (simp add: example_rnn_def manual_predictions_length)
  have bw: "x_bitwidth (example_rnn 8) = 8" by (simp add: example_rnn_def RnnCell_init_def)
  have p0: "py_int ''200'' = Some (int 200)" by (simp add: text_eval)
  have p1: "py_int ''100'' = Some (int 100)" by (simp add: text_eval)
  have a: "is_ascii ''200''" "is_ascii ''100''" by (simp_all add: is_ascii_def)
  from reshape_needs_width_32 [OF m d w wf bw p0 _ p1 _ a, of example_ops "[''y'']"]
  show ?thesis using m d w wf bw p0 p1 a by simp
qed

text \<open>
  Claim C10. After a round that raised no exception, the loop ends exactly when the reply
  to the continuation prompt is not a contiguous piece of \<open>"Yy"\<close>: the replies \<open>"y"\<close>,
  \<open>"Y"\<close>, \<open>"Yy"\<close> and the empty reply continue the loop, every other reply, \<open>"yes"\<close>
  included, ends it.
\<close>

theorem continuation_test:
  assumes "max_val_of dn = Some mv" and "np_dtype_of dn = Some npd"
    and "round_body ops rn mv dn npd r0 r1 = (ev, Inr u)"
  shows "(str_contains ''Yy'' reply \<longleftrightarrow> sublist reply ''Yy'')
       \<and> run ops (RNNCalc_init dn rn) (r0 # r1 # reply # replies) =
           (if reply \<in> {'''', ''Y'', ''y'', ''Yy''}
            then (ev @ [Prompt prompt_new] @ fst (run ops (RNNCalc_init dn rn) replies),
                  snd (run ops (RNNCalc_init dn rn) replies))
            else (ev @ [Prompt prompt_new], Finished))"
  using run_loop_continue [OF assms(3)]
  by (simp only: run_init [OF assms(1,2)] str_contains_sublist simp_thms)

theorem continuation_test_witness:
  "max_val_of ''uint8'' = Some 255 \<and> np_dtype_of ''uint8'' = Some np_uint8
   \<and> round_body example_ops (example_rnn 8) 255 ''uint8'' np_uint8 ''abc'' ''7'' =
       ([Prompt ''Please input x0 in range 0 to 255'', Print ''Not an integer!'',
         Prompt ''Please input x1 in range 0 to 255''], Inr ())
   \<and> run example_ops (RNNCalc_init ''uint8'' (example_rnn 8)) [''abc'', ''7'', ''yes'', ''1''] =
       ([Prompt ''Please input x0 in range 0 to 255'', Print ''Not an integer!'',
         Prompt ''Please input x1 in range 0 to 255'',
         Prompt ''Do you wish to perform a new calculation? (y/N)''], Finished)
   \<and> run example_ops (RNNCalc_init ''uint8'' (example_rnn 8)) [''abc'', ''7'', ''''] =
       ([Prompt ''Please input x0 in range 0 to 255'', Print ''Not an integer!'',
         Prompt ''Please input x1 in range 0 to 255'',
         Prompt ''Do you wish to perform a new calculation? (y/N)'',
         Prompt ''Please input x0 in range 0 to 255''], Raised EOFError)"
proof -
  have m: "max_val_of ''uint8'' = Some 255" by (simp add: max_val_of_def)
  have d: "np_dtype_of ''uint8'' = Some np_uint8" by (simp add: np_dtype_of_def)
  have r: "round_body example_ops (example_rnn 8) 255 ''uint8'' np_uint8 ''abc'' ''7'' =
       ([Prompt ''Please input x0 in range 0 to 255'', Print ''Not an integer!'',
         Prompt ''Please input x1 in range 0 to 255''], Inr ())"
    by (simp add: round_body_def check_input_def text_eval)
  have e: "run example_ops (RNNCalc_init ''uint8'' (example_rnn 8)) [] =
       ([Prompt ''Please input x0 in range 0 to 255''], Raised EOFError)"
    by (simp add: run_init [OF m d] text_eval)
  show ?thesis
    using continuation_test [OF m d r, of "''yes''" "[''1'']"]
      continuation_test [OF m d r, of "''''" "[]"] m d r e
    by (simp add: prompt_new_def)
qed

end
